theory Spec2Isabelle
  imports Main "HOL-Library.Sublist"
begin

section \<open>Python strings\<close>

text \<open>
  A Python \<open>str\<close> is modelled as a \<open>string\<close>, each \<open>char\<close> standing for one code
  point below 256. The string methods the script calls are written out below with
  Python's behaviour at the edges (empty pattern, no separator found, short strings).
\<close>

definition nl :: char where
  "nl = CHR 0x0A"

text \<open>\<open>sep.join(parts)\<close>.\<close>

fun join :: "string \<Rightarrow> string list \<Rightarrow> string" where
  "join sep [] = []"
| "join sep [p] = p"
| "join sep (p # q # ps) = p @ sep @ join sep (q # ps)"

text \<open>
  \<open>s.replace(old, new)\<close>: the occurrences of \<open>old\<close> are found from the left and do not
  overlap. \<open>replace_from\<close> scans the string; its counter is the number of characters of
  the occurrence just replaced that are still to be skipped. An empty \<open>old\<close> matches
  before every character and at the end.
\<close>

fun replace_from :: "string \<Rightarrow> string \<Rightarrow> nat \<Rightarrow> string \<Rightarrow> string" where
  "replace_from old new k [] = []"
| "replace_from old new (Suc k) (c # cs) = replace_from old new k cs"
| "replace_from old new 0 (c # cs) =
     (if take (length old) (c # cs) = old
      then new @ replace_from old new (length old - 1) cs
      else c # replace_from old new 0 cs)"

definition replace :: "string \<Rightarrow> string \<Rightarrow> string \<Rightarrow> string" where
  "replace s old new =
     (if old = [] then new @ concat (map (\<lambda>c. c # new) s)
      else replace_from old new 0 s)"

text \<open>\<open>s.split(sep)\<close> for a one-character separator: never an empty list.\<close>

fun split :: "char \<Rightarrow> string \<Rightarrow> string list" where
  "split sep [] = [[]]"
| "split sep (c # cs) =
     (if c = sep then [] # split sep cs
      else (case split sep cs of
              [] \<Rightarrow> [[c]]
            | w # ws \<Rightarrow> (c # w) # ws))"

text \<open>\<open>s.split(sep, 1)\<close>: at most one cut, at the first separator.\<close>

definition split1 :: "char \<Rightarrow> string \<Rightarrow> string list" where
  "split1 sep s =
     (if sep \<in> set s
      then [takeWhile (\<lambda>c. c \<noteq> sep) s, tl (dropWhile (\<lambda>c. c \<noteq> sep) s)]
      else [s])"

text \<open>\<open>s.startswith(p)\<close>.\<close>

definition startswith :: "string \<Rightarrow> string \<Rightarrow> bool" where
  "startswith s p = (take (length p) s = p)"

text \<open>
  \<open>s.lower()\<close> on code points below 256: the capital letters are A to Z and the
  Latin-1 range 0xC0 to 0xDE without the multiplication sign 0xD7; each has its
  small letter 32 places further.
\<close>

definition lower_chr :: "char \<Rightarrow> char" where
  "lower_chr c =
     (let n = (of_char c :: nat) in
      if (65 \<le> n \<and> n \<le> 90) \<or> (192 \<le> n \<and> n \<le> 222 \<and> n \<noteq> 215)
      then char_of (n + 32) else c)"

definition lower :: "string \<Rightarrow> string" where
  "lower s = map lower_chr s"

text \<open>
  \<open>s.strip()\<close>: white space (for code points below 256: 0x09 to 0x0D, 0x1C to 0x20,
  0x85 and 0xA0) is removed at both ends.
\<close>

definition isspace :: "char \<Rightarrow> bool" where
  "isspace c =
     (let n = (of_char c :: nat) in
      (9 \<le> n \<and> n \<le> 13) \<or> (28 \<le> n \<and> n \<le> 32) \<or> n = 133 \<or> n = 160)"

definition strip :: "string \<Rightarrow> string" where
  "strip s = rev (dropWhile isspace (rev (dropWhile isspace s)))"

section \<open>Module-level helpers\<close>

text \<open>
  \<open>not_allowed_regex = re.compile("[^a-z0-9_]+")\<close>: the character class, and the
  substitution \<open>not_allowed_regex.sub(repl, s)\<close>. A match starts at the first character
  of the class that is met and, \<open>+\<close> being greedy, takes every character of the class
  that follows it.
\<close>

definition not_allowed :: "char \<Rightarrow> bool" where
  "not_allowed c =
     (let n = (of_char c :: nat) in
      \<not> ((97 \<le> n \<and> n \<le> 122) \<or> (48 \<le> n \<and> n \<le> 57) \<or> n = 95))"

function not_allowed_regex_sub :: "string \<Rightarrow> string \<Rightarrow> string" where
  "not_allowed_regex_sub repl [] = []"
| "not_allowed_regex_sub repl (c # cs) =
     (if not_allowed c
      then repl @ not_allowed_regex_sub repl (dropWhile not_allowed cs)
      else c # not_allowed_regex_sub repl cs)"
  by pat_completeness auto
termination
  by (relation "measure (\<lambda>(repl, s). length s)")
     (auto simp: le_imp_less_Suc length_dropWhile_le)

definition sanitize_tag_version :: "string \<Rightarrow> string" where
  "sanitize_tag_version version = replace (replace version ''_'' ''~'') ''%'' '':''"

definition slugify :: "string \<Rightarrow> string" where
  "slugify s = not_allowed_regex_sub ''.'' (lower s)"

section \<open>Errors, the repository, the file system and the libraries\<close>

text \<open>
  Every exception the script can raise is a value. \<open>Exception msg\<close> is the script's
  own \<open>raise Exception(msg)\<close>; \<open>GitError\<close> stands for any failure inside the
  repository library (an unknown revision, a failing git command) and \<open>OSError\<close> for
  a failing \<open>open\<close>.
\<close>

datatype error =
    Exception string
  | NameError string
  | IndexError
  | ValueError
  | KeyError
  | AttributeError
  | TypeError
  | GitError
  | OSError

record commit =
  hexsha :: string
  parents :: "string list"
  author_name :: string
  author_email :: string
  committed_date :: int
  committer_tz_offset :: int
  message :: string

record tag_ref =
  tag_name :: string
  tag_commit :: string

text \<open>
  What the script asks of \<open>git.Repo\<close>: \<open>commit_of rev\<close> is \<open>commit(rev=...)\<close>,
  \<open>iter_commits rev\<close> the commits reachable from \<open>rev\<close> in the order the library
  lists them (newest first), \<open>git_describe\<close> the output of \<open>git.describe(...)\<close>,
  \<open>head_commit\<close> is \<open>head.commit.hexsha\<close> and \<open>active_branch\<close> is
  \<open>active_branch.name\<close>; \<open>None\<close> where the library raises.
\<close>

record repo =
  working_dir :: string
  tags :: "tag_ref list"
  commit_of :: "string \<Rightarrow> commit option"
  iter_commits :: "string \<Rightarrow> commit list option"
  git_describe :: "string list \<Rightarrow> string option"
  head_commit :: "string option"
  active_branch :: "string option"

text \<open>The text files that exist, by path, with their contents as text mode reads them.\<close>

type_synonym files = "string \<Rightarrow> string option"

text \<open>
  The two date formatters of the standard library, taken as given:
  \<open>strftime t\<close> is \<open>datetime.datetime.fromtimestamp(t).strftime("%Y%m%d%H%M%S")\<close> and
  \<open>format_datetime t off\<close> is
  \<open>email.utils.format_datetime(git.objects.util.from_timestamp(t, off))\<close>.
\<close>

record lib =
  strftime :: "int \<Rightarrow> string"
  format_datetime :: "int \<Rightarrow> int \<Rightarrow> string"

text \<open>\<open>os.path.join(a, b)\<close>.\<close>

definition path_join :: "string \<Rightarrow> string \<Rightarrow> string" where
  "path_join a b =
     (if startswith b ''/'' then b
      else if a = [] \<or> last a = CHR ''/'' then a @ b
      else a @ ''/'' @ b)"

text \<open>\<open>f.readline()\<close> on a file just opened, and \<open>for line in f\<close>: lines keep their newline.\<close>

fun file_lines :: "string \<Rightarrow> string list" where
  "file_lines [] = []"
| "file_lines (c # cs) =
     (if c = nl then [c] # file_lines cs
      else (case file_lines cs of
              [] \<Rightarrow> [[c]]
            | l # ls \<Rightarrow> (c # l) # ls))"

definition readline :: "string \<Rightarrow> string" where
  "readline s = (case file_lines s of [] \<Rightarrow> [] | l # ls \<Rightarrow> l)"

section \<open>Name resolution inside \<open>none_on_exception\<close>\<close>

text \<open>
  The names bound at module level when the version is computed (imports, assignments,
  \<open>def\<close> and \<open>class\<close> statements, and the three variables \<open>__main__\<close> has assigned
  by then), and the names of Python's \<open>builtins\<close> module. A free name in a function
  body is looked up among the function's locals, then the module's globals, then the
  builtins; when none binds it, evaluating it raises \<open>NameError\<close>.
\<close>

definition module_globals :: "string list" where
  "module_globals =
     [''__name__'', ''__doc__'', ''__package__'', ''__loader__'', ''__spec__'',
      ''__file__'', ''__builtins__'',
      ''os'', ''sys'', ''re'', ''git'', ''datetime'', ''email'', ''argparse'',
      ''OrderedDict'', ''namedtuple'', ''changelog_entry'', ''not_allowed_regex'',
      ''none_on_exception'', ''sanitize_tag_version'', ''slugify'',
      ''tzinfo_from_offset'', ''SlimPackage'', ''parser'',
      ''args'', ''repository'', ''pkg'']"

definition builtin_names :: "string list" where
  "builtin_names =
     [''abs'', ''aiter'', ''all'', ''anext'', ''any'', ''ascii'', ''bin'', ''bool'',
      ''breakpoint'', ''bytearray'', ''bytes'', ''callable'', ''chr'', ''classmethod'',
      ''compile'', ''complex'', ''copyright'', ''credits'', ''delattr'', ''dict'',
      ''dir'', ''divmod'', ''enumerate'', ''eval'', ''exec'', ''exit'', ''filter'',
      ''float'', ''format'', ''frozenset'', ''getattr'', ''globals'', ''hasattr'',
      ''hash'', ''help'', ''hex'', ''id'', ''input'', ''int'', ''isinstance'',
      ''issubclass'', ''iter'', ''len'', ''license'', ''list'', ''locals'', ''map'',
      ''max'', ''memoryview'', ''min'', ''next'', ''object'', ''oct'', ''open'',
      ''ord'', ''pow'', ''print'', ''property'', ''quit'', ''range'', ''repr'',
      ''reversed'', ''round'', ''set'', ''setattr'', ''slice'', ''sorted'',
      ''staticmethod'', ''str'', ''sum'', ''super'', ''tuple'', ''type'', ''vars'',
      ''zip'', ''__import__'', ''None'', ''True'', ''False'', ''Ellipsis'',
      ''NotImplemented'', ''__debug__'']"

definition name_bound :: "string list \<Rightarrow> string \<Rightarrow> bool" where
  "name_bound local_names n =
     (n \<in> set local_names \<or> n \<in> set module_globals \<or> n \<in> set builtin_names)"

text \<open>
  \<open>none_on_exception(*args, **kwargs)\<close>. Its parameters are \<open>args\<close> and \<open>kwargs\<close>;
  its body calls the free name \<open>func\<close>. The first argument of the model,
  \<open>func_if_bound\<close>, is what that call would compute if some scope bound \<open>func\<close>; the
  bare \<open>except\<close> turns every exception, the \<open>NameError\<close> included, into \<open>None\<close>.
\<close>

definition none_on_exception :: "('a \<Rightarrow> error + 'b) \<Rightarrow> 'a \<Rightarrow> 'b option" where
  "none_on_exception func_if_bound args =
     (case (if name_bound [''args'', ''kwargs''] ''func''
            then func_if_bound args
            else Inl (NameError ''func'')) of
        Inl e \<Rightarrow> None
      | Inr r \<Rightarrow> Some r)"

section \<open>The class \<open>SlimPackage\<close>\<close>

text \<open>
  The object's attributes; \<open>cached_name\<close>, \<open>cached_version\<close> and \<open>cached_release\<close>
  are \<open>_name\<close>, \<open>_version\<close> and \<open>_release\<close>. A property that fills its cache returns
  the object with the cache filled. The property \<open>is_native\<close> (with its cache) and the
  function \<open>tzinfo_from_offset\<close> are called by nothing in the script and are left out.
\<close>

record slim_package =
  git_repository :: repo
  commit_hash :: string
  tag :: "string option"
  tag_prefix :: string
  branch :: "string option"
  branch_prefix :: string
  comment :: string
  cached_name :: "string option"
  cached_version :: "string option"
  cached_release :: "string option"

definition SlimPackage ::
  "repo \<Rightarrow> string \<Rightarrow> string option \<Rightarrow> string \<Rightarrow> string option \<Rightarrow> string \<Rightarrow> string
     \<Rightarrow> slim_package" where
  "SlimPackage repository h t t_prefix b b_prefix c =
     \<lparr> git_repository = repository, commit_hash = h, tag = t, tag_prefix = t_prefix,
       branch = b, branch_prefix = b_prefix,
       comment = slugify (replace c b_prefix []),
       cached_name = None, cached_version = None, cached_release = None \<rparr>"

text \<open>
  \<open>get_version_from_changelog\<close>: the second space-separated word of the first line,
  without its first and last character; \<open>None\<close> when the file is missing or the line
  has no second word (the \<open>IndexError\<close> is swallowed).
\<close>

definition get_version_from_changelog :: "files \<Rightarrow> slim_package \<Rightarrow> string option" where
  "get_version_from_changelog fs pkg =
     (case fs (path_join (working_dir (git_repository pkg)) ''debian/changelog'') of
        None \<Rightarrow> None
      | Some text \<Rightarrow>
          (case split CHR '' '' (readline text) of
             w0 # w1 # ws \<Rightarrow> Some (butlast (tl w1))
           | _ \<Rightarrow> None))"

text \<open>The property \<open>name\<close>.\<close>

definition name :: "files \<Rightarrow> slim_package \<Rightarrow> error + string \<times> slim_package" where
  "name fs pkg =
     (case cached_name pkg of
        Some n \<Rightarrow> Inr (n, pkg)
      | None \<Rightarrow>
          (case fs (path_join (working_dir (git_repository pkg)) ''debian/control'') of
             None \<Rightarrow> Inl (Exception ''Unable to find debian/control'')
           | Some text \<Rightarrow>
               (case find (\<lambda>line. startswith line ''Source: '') (file_lines text) of
                  None \<Rightarrow> Inl (Exception ''Unable to determine the source package name!'')
                | Some line \<Rightarrow>
                    (let n = last (split1 CHR '' '' (strip line))
                     in Inr (n, pkg\<lparr>cached_name := Some n\<rparr>)))))"

text \<open>
  The property \<open>version\<close>. The second strategy hands the lambda, the repository and the
  tag prefix to \<open>none_on_exception\<close>; \<open>describe_version\<close> is that lambda. The loop over
  the strategies is \<open>first_result\<close>, and \<open>str_or_None\<close> is what \<open>%s\<close> makes of its
  result.
\<close>

definition describe_version :: "repo \<Rightarrow> string \<Rightarrow> error + string" where
  "describe_version x y =
     (case git_describe x [''--tags'', ''--always'', ''--abbrev=0'', ''--match='' @ y @ ''*''] of
        None \<Rightarrow> Inl GitError
      | Some out \<Rightarrow>
          (case split CHR ''/'' (replace out y []) of
             s0 # s1 # ss \<Rightarrow> Inr s1
           | _ \<Rightarrow> Inl IndexError))"

definition starting_version_strategies ::
  "files \<Rightarrow> slim_package \<Rightarrow> (unit \<Rightarrow> string option) list" where
  "starting_version_strategies fs pkg =
     [\<lambda>_. (case tag pkg of
              Some t \<Rightarrow> Some (last (split CHR ''/'' (replace t (tag_prefix pkg) [])))
            | None \<Rightarrow> None),
      \<lambda>_. none_on_exception (\<lambda>(x, y). describe_version x y)
             (git_repository pkg, tag_prefix pkg),
      \<lambda>_. get_version_from_changelog fs pkg,
      \<lambda>_. Some ''0.0.0'']"

fun first_result :: "(unit \<Rightarrow> 'a option) list \<Rightarrow> 'a option" where
  "first_result [] = None"
| "first_result (strategy # strategies) =
     (case strategy () of
        Some v \<Rightarrow> Some v
      | None \<Rightarrow> first_result strategies)"

definition str_or_None :: "string option \<Rightarrow> string" where
  "str_or_None v = (case v of None \<Rightarrow> ''None'' | Some s \<Rightarrow> s)"

definition version :: "lib \<Rightarrow> files \<Rightarrow> slim_package \<Rightarrow> error + string \<times> slim_package" where
  "version l fs pkg =
     (case cached_version pkg of
        Some v \<Rightarrow> Inr (v, pkg)
      | None \<Rightarrow>
          (let starting_version = first_result (starting_version_strategies fs pkg)
           in case commit_of (git_repository pkg) (commit_hash pkg) of
                None \<Rightarrow> Inl GitError
              | Some c \<Rightarrow>
                  (let v = str_or_None starting_version @ ''+git'' @
                             join ''.'' [strftime l (committed_date c),
                                         take 7 (commit_hash pkg),
                                         comment pkg]
                   in Inr (v, pkg\<lparr>cached_version := Some v\<rparr>))))"

text \<open>
  The property \<open>release\<close>. \<open>not self._release\<close> holds for \<open>None\<close> and for the empty
  string, so only a cached non-empty release is returned as it is.
\<close>

definition release :: "slim_package \<Rightarrow> error + string \<times> slim_package" where
  "release pkg =
     (case cached_release pkg of
        Some (x # xs) \<Rightarrow> Inr (x # xs, pkg)
      | _ \<Rightarrow>
          (case tag pkg of
             Some t \<Rightarrow>
               (let r = hd (split CHR ''/'' (replace t (tag_prefix pkg) []))
                in Inr (r, pkg\<lparr>cached_release := Some r\<rparr>))
           | None \<Rightarrow>
               (case branch pkg of
                  Some b \<Rightarrow>
                    (let r = hd (split CHR ''/'' (replace b (branch_prefix pkg) []))
                     in Inr (r, pkg\<lparr>cached_release := Some r\<rparr>))
                | None \<Rightarrow>
                    Inl (Exception
                      ''At least one between tag and branch must be specified''))))"

section \<open>The changelog\<close>

record changelog_entry =
  author :: string
  mail :: string
  contents :: "(string \<times> string list) list"
  date :: string

text \<open>
  \<open>contents\<close> is an \<open>OrderedDict\<close>: the keys in the order of their first insertion.
  \<open>insert_message a m\<close> is \<open>contents.setdefault(a, []).insert(0, m)\<close>.
\<close>

fun insert_message ::
  "string \<Rightarrow> string \<Rightarrow> (string \<times> string list) list \<Rightarrow> (string \<times> string list) list" where
  "insert_message a m [] = [(a, [m])]"
| "insert_message a m ((k, ms) # rest) =
     (if k = a then (k, m # ms) # rest else (k, ms) # insert_message a m rest)"

definition new_entry :: "lib \<Rightarrow> commit \<Rightarrow> changelog_entry" where
  "new_entry l c =
     \<lparr> author = author_name c, mail = author_email c, contents = [],
       date = format_datetime l (committed_date c) (committer_tz_offset c) \<rparr>"

definition first_line :: "commit \<Rightarrow> string" where
  "first_line c = hd (split nl (message c))"

definition add_commit :: "commit \<Rightarrow> changelog_entry \<Rightarrow> changelog_entry" where
  "add_commit c e = e\<lparr>contents := insert_message (author_name c) (first_line c) (contents e)\<rparr>"

text \<open>The dictionary of the tags with the prefix; a later tag on a commit replaces an earlier one.\<close>

definition tags_dict :: "slim_package \<Rightarrow> string \<Rightarrow> string option" where
  "tags_dict pkg =
     map_of (rev (map (\<lambda>t. (tag_commit t, replace (tag_name t) (tag_prefix pkg) []))
                      (filter (\<lambda>t. startswith (tag_name t) (tag_prefix pkg))
                              (tags (git_repository pkg)))))"

text \<open>
  The dictionary the template is filled from, and the template. The walk below yields
  the dictionaries; \<open>iter_changelog\<close> formats each, as the \<open>yield\<close> does.
\<close>

record stanza =
  st_name :: string
  st_version :: string
  st_release :: string
  st_content :: string
  st_author :: string
  st_mail :: string
  st_date :: string

definition DEBIAN_CHANGELOG_TEMPLATE :: "stanza \<Rightarrow> string" where
  "DEBIAN_CHANGELOG_TEMPLATE d =
     st_name d @ '' ('' @ st_version d @ '') '' @ st_release d @ ''; urgency=medium'' @
     [nl, nl] @ st_content d @ [nl, nl] @
     '' -- '' @ st_author d @ '' <'' @ st_mail d @ ''>  '' @ st_date d @ [nl, nl]"

definition render_messages :: "string list \<Rightarrow> string" where
  "render_messages messages = join [nl] (map (\<lambda>m. ''  * '' @ m) messages)"

definition render_content :: "(string \<times> string list) list \<Rightarrow> string" where
  "render_content cts =
     (let authors = length cts
      in join [nl, nl]
           (map (\<lambda>(a, messages).
                   if authors > 1 then ''  [ '' @ a @ '' ]'' @ [nl] @ render_messages messages
                   else render_messages messages)
                cts))"

text \<open>The dictionary literal of the \<open>yield\<close>, from the name, the version, the release and the entry.\<close>

definition template_dict :: "string \<Rightarrow> string \<Rightarrow> string \<Rightarrow> changelog_entry \<Rightarrow> stanza" where
  "template_dict n ver rel e =
     \<lparr> st_name = n, st_version = sanitize_tag_version ver, st_release = rel,
       st_content = render_content (contents e),
       st_author = author e, st_mail = mail e, st_date = date e \<rparr>"

text \<open>
  The loop of \<open>iter_changelog\<close> over the commits, with its three variables: the entry
  in progress, \<open>nearest_version\<close> and the object (whose name cache the first \<open>yield\<close>
  fills). It returns what it yielded and the exception that ended it, if any.
\<close>

fun walk ::
  "lib \<Rightarrow> files \<Rightarrow> (string \<Rightarrow> string option) \<Rightarrow> commit list \<Rightarrow> changelog_entry option
     \<Rightarrow> string \<Rightarrow> slim_package \<Rightarrow> stanza list \<times> error option" where
  "walk l fs tgs [] entry nearest_version pkg = ([], None)"
| "walk l fs tgs (c # cs) entry nearest_version pkg =
     (if (tgs (hexsha c) \<noteq> None \<and> hexsha c \<noteq> commit_hash pkg) \<or> parents c = []
      then
        (case split CHR ''/'' nearest_version of
           [rel, ver] \<Rightarrow>
             (case (if parents c = []
                    then Some (add_commit c (case entry of None \<Rightarrow> new_entry l c | Some e \<Rightarrow> e))
                    else entry) of
                None \<Rightarrow> ([], Some AttributeError)
              | Some e \<Rightarrow>
                  (case name fs pkg of
                     Inl err \<Rightarrow> ([], Some err)
                   | Inr (n, pkg') \<Rightarrow>
                       (let d = template_dict n ver rel e
                        in case (if parents c \<noteq> []
                                 then tgs (hexsha c)
                                 else Some nearest_version) of
                             None \<Rightarrow> ([d], Some KeyError)
                           | Some nearest_version' \<Rightarrow>
                               (case walk l fs tgs cs (Some (add_commit c (new_entry l c)))
                                       nearest_version' pkg' of
                                  (ds, err) \<Rightarrow> (d # ds, err)))))
         | _ \<Rightarrow> ([], Some ValueError))
      else walk l fs tgs cs
             (Some (add_commit c (case entry of None \<Rightarrow> new_entry l c | Some e \<Rightarrow> e)))
             nearest_version pkg)"

definition iter_changelog ::
  "lib \<Rightarrow> files \<Rightarrow> slim_package \<Rightarrow> string list \<times> error option" where
  "iter_changelog l fs pkg =
     (let tgs = tags_dict pkg
      in case release pkg of
           Inl err \<Rightarrow> ([], Some err)
         | Inr (rel, pkg1) \<Rightarrow>
             (case version l fs pkg1 of
                Inl err \<Rightarrow> ([], Some err)
              | Inr (ver, pkg2) \<Rightarrow>
                  (case iter_commits (git_repository pkg2) (commit_hash pkg2) of
                     None \<Rightarrow> ([], Some GitError)
                   | Some commits \<Rightarrow>
                       (case walk l fs tgs commits None (rel @ ''/'' @ ver) pkg2 of
                          (ds, err) \<Rightarrow> (map DEBIAN_CHANGELOG_TEMPLATE ds, err)))))"

section \<open>The program\<close>

text \<open>
  The parsed command line; an option that was not given is \<open>None\<close>. \<open>x or y\<close> takes
  \<open>y\<close> when \<open>x\<close> is \<open>None\<close> or the empty string.
\<close>

record args =
  arg_commit :: "string option"
  arg_git_repository :: string
  arg_tag :: "string option"
  arg_tag_prefix :: string
  arg_branch :: "string option"
  arg_branch_prefix :: string
  arg_comment :: string

definition truthy :: "string option \<Rightarrow> bool" where
  "truthy x = (case x of None \<Rightarrow> False | Some s \<Rightarrow> s \<noteq> [])"

text \<open>
  What the program runs in: the current directory, the files, whether a path can be
  opened for writing, and \<open>git.Repo(path)\<close> (\<open>None\<close> where it raises). What a run
  leaves: the lines printed, the files, and the exception that ended it, if any.
\<close>

record world =
  cwd :: string
  w_files :: files
  can_write :: "string \<Rightarrow> bool"
  git_Repo :: "string \<Rightarrow> repo option"

record outcome =
  stdout :: "string list"
  files_after :: files
  raised :: "error option"

text \<open>
  The block under \<open>__main__\<close>, in two parts. \<open>make_package\<close> loads the repository and
  builds the object; \<open>main\<close> then computes the version, prints it, opens the output file
  and writes what \<open>iter_changelog\<close> yields. \<open>open("debian/changelog", "w")\<close> empties the
  file when it opens it, before the generator has run any of its body; the entries are
  written one by one, and an exception closes the file with what was written so far.
\<close>

definition make_package :: "world \<Rightarrow> args \<Rightarrow> error + slim_package" where
  "make_package w a =
     (case git_Repo w (arg_git_repository a) of
        None \<Rightarrow>
          Inl (Exception (''Unable to load git repository at '' @ arg_git_repository a @
                 ''. You can use --git-repository to change the repo path''))
      | Some repository \<Rightarrow>
          (case (if truthy (arg_commit a) then arg_commit a else head_commit repository) of
             None \<Rightarrow> Inl ValueError
           | Some h \<Rightarrow>
               (case (if truthy (arg_branch a) then Inr (arg_branch a)
                      else if truthy (arg_tag a) then Inr None
                      else (case active_branch repository of
                              None \<Rightarrow> Inl TypeError
                            | Some b \<Rightarrow> Inr (Some b))) of
                  Inl err \<Rightarrow> Inl err
                | Inr b \<Rightarrow>
                    Inr (SlimPackage repository h (arg_tag a) (arg_tag_prefix a) b
                           (arg_branch_prefix a) (arg_comment a)))))"

definition main :: "lib \<Rightarrow> world \<Rightarrow> args \<Rightarrow> outcome" where
  "main l w a =
     (case make_package w a of
        Inl err \<Rightarrow> \<lparr> stdout = [], files_after = w_files w, raised = Some err \<rparr>
      | Inr pkg \<Rightarrow>
          (case version l (w_files w) pkg of
             Inl err \<Rightarrow> \<lparr> stdout = [], files_after = w_files w, raised = Some err \<rparr>
           | Inr (v, pkg') \<Rightarrow>
               (let out = [''I: Resulting version is '' @ v];
                    path = path_join (cwd w) ''debian/changelog''
                in if \<not> can_write w path
                   then \<lparr> stdout = out, files_after = w_files w, raised = Some OSError \<rparr>
                   else
                     (let fs = (w_files w)(path \<mapsto> [])
                      in case iter_changelog l fs pkg' of
                           (entries, err) \<Rightarrow>
                             \<lparr> stdout = out, files_after = fs(path \<mapsto> concat entries),
                               raised = err \<rparr>))))"

section \<open>Maximal runs\<close>

text \<open>
  \<open>runs P xs\<close> cuts \<open>xs\<close> into its maximal runs: each run is a stretch of elements that
  are all in \<open>P\<close> or all outside it, and two neighbouring runs are on different sides.
  \<open>slug_by_runs\<close> is the slug as the specification words it: the lowercased string with
  every maximal run outside \<open>[a-z0-9_]\<close> replaced by one dot.
\<close>

fun runs :: "('a \<Rightarrow> bool) \<Rightarrow> 'a list \<Rightarrow> 'a list list" where
  "runs P [] = []"
| "runs P (x # xs) =
     (case runs P xs of
        [] \<Rightarrow> [[x]]
      | r # rs \<Rightarrow> (if P x = P (hd r) then (x # r) # rs else [x] # r # rs))"

definition slug_by_runs :: "string \<Rightarrow> string" where
  "slug_by_runs s =
     concat (map (\<lambda>r. if not_allowed (hd r) then ''.'' else r) (runs not_allowed (lower s)))"

section \<open>Entries over a stretch of commits, and first-seen order\<close>

text \<open>
  \<open>entry_of l cs\<close> is the entry the walk has built when it has opened an entry at the
  first commit of \<open>cs\<close> and added every commit of \<open>cs\<close>, in the order of the walk
  (newest first). \<open>first_seen xs\<close> keeps the first occurrence of every element.
\<close>

definition entry_of :: "lib \<Rightarrow> commit list \<Rightarrow> changelog_entry" where
  "entry_of l cs = fold add_commit cs (new_entry l (hd cs))"

fun first_seen :: "'a list \<Rightarrow> 'a list" where
  "first_seen [] = []"
| "first_seen (x # xs) = x # filter (\<lambda>y. y \<noteq> x) (first_seen xs)"

section \<open>The specification's wording, for comparison\<close>

text \<open>
  Two definitions that follow the words of the specification instead of the code.
  \<open>prefix_stripped p s\<close> is \<open>s\<close> with the prefix \<open>p\<close> stripped: a leading \<open>p\<close> is cut
  off and nothing else is touched. \<open>stanza_body seg\<close> is the body of the stanza for the
  commits \<open>seg\<close>, given newest first: the authors in the order in which they are first
  seen; for each author the first lines of that author's commits, oldest first, each as
  a line \<open>  * message\<close>; when there is more than one author, each author's block under
  a header line \<open>  [ author ]\<close> and the blocks separated by a blank line; when there is
  one author, the block alone.
\<close>

definition prefix_stripped :: "string \<Rightarrow> string \<Rightarrow> string" where
  "prefix_stripped p s = (if startswith s p then drop (length p) s else s)"

definition author_block :: "commit list \<Rightarrow> string \<Rightarrow> string" where
  "author_block seg a =
     join [nl] (map (\<lambda>m. ''  * '' @ m)
                    (rev (map first_line (filter (\<lambda>c. author_name c = a) seg))))"

definition stanza_body :: "commit list \<Rightarrow> string" where
  "stanza_body seg =
     (case first_seen (map author_name seg) of
        [] \<Rightarrow> []
      | [a] \<Rightarrow> author_block seg a
      | a # b # others \<Rightarrow>
          join [nl, nl]
            (map (\<lambda>x. ''  [ '' @ x @ '' ]'' @ [nl] @ author_block seg x) (a # b # others)))"

section \<open>A small repository to run the program on\<close>

text \<open>
  Three commits in a line: the root by Alice, a commit by Bob that carries the tag, and
  the head by Alice. The repository is given by the list of its tags; \<open>git describe\<close>
  answers with the name of the first tag.
\<close>

definition ex_lib :: lib where
  "ex_lib = \<lparr> strftime = (\<lambda>t. ''20200102030405''),
              format_datetime = (\<lambda>t off. ''Thu, 02 Jan 2020 03:04:05 +0000'') \<rparr>"

definition ex_root :: commit where
  "ex_root = \<lparr> hexsha = ''1a1a1a1a1a1a1a1a1a1a1a1a1a1a1a1a1a1a1a1a'', parents = [],
               author_name = ''Alice'', author_email = ''alice@example.org'',
               committed_date = 1577934245, committer_tz_offset = 0,
               message = ''Initial import'' @ [nl, nl] @ ''With a body.'' @ [nl] \<rparr>"

definition ex_tagged :: commit where
  "ex_tagged = \<lparr> hexsha = ''2b2b2b2b2b2b2b2b2b2b2b2b2b2b2b2b2b2b2b2b'',
                 parents = [''1a1a1a1a1a1a1a1a1a1a1a1a1a1a1a1a1a1a1a1a''],
                 author_name = ''Bob'', author_email = ''bob@example.org'',
                 committed_date = 1577934245, committer_tz_offset = 0,
                 message = ''Prepare the release'' @ [nl] \<rparr>"

definition ex_head :: commit where
  "ex_head = \<lparr> hexsha = ''3c3c3c3c3c3c3c3c3c3c3c3c3c3c3c3c3c3c3c3c'',
               parents = [''2b2b2b2b2b2b2b2b2b2b2b2b2b2b2b2b2b2b2b2b''],
               author_name = ''Alice'', author_email = ''alice@example.org'',
               committed_date = 1577934245, committer_tz_offset = 0,
               message = ''Add feature_x'' @ [nl] \<rparr>"

definition ex_repo :: "tag_ref list \<Rightarrow> repo" where
  "ex_repo ts =
     \<lparr> working_dir = ''/src/pkg'',
       tags = ts,
       commit_of = (\<lambda>rev. find (\<lambda>c. hexsha c = rev) [ex_head, ex_tagged, ex_root]),
       iter_commits = (\<lambda>rev.
          if rev = hexsha ex_head then Some [ex_head, ex_tagged, ex_root]
          else if rev = hexsha ex_tagged then Some [ex_tagged, ex_root]
          else if rev = hexsha ex_root then Some [ex_root]
          else None),
       git_describe = (\<lambda>opts. case ts of [] \<Rightarrow> None | t # _ \<Rightarrow> Some (tag_name t)),
       head_commit = Some (hexsha ex_head),
       active_branch = Some ''bookworm'' \<rparr>"

definition ex_tag :: "string \<Rightarrow> tag_ref" where
  "ex_tag n = \<lparr> tag_name = n, tag_commit = hexsha ex_tagged \<rparr>"

definition ex_control :: files where
  "ex_control =
     (\<lambda>p. if p = ''/src/pkg/debian/control''
          then Some (''Source: demo-pkg'' @ [nl] @ ''Section: misc'' @ [nl])
          else None)"

definition ex_old_changelog :: files where
  "ex_old_changelog =
     (\<lambda>p. if p = ''/src/pkg/debian/changelog''
          then Some (''demo-pkg (0.9) bookworm; urgency=medium'' @ [nl])
          else None)"

definition ex_world :: "tag_ref list \<Rightarrow> files \<Rightarrow> world" where
  "ex_world ts fs =
     \<lparr> cwd = ''/src/pkg'', w_files = fs, can_write = (\<lambda>p. True),
       git_Repo = (\<lambda>p. if p = ''/src/pkg'' then Some (ex_repo ts) else None) \<rparr>"

definition ex_args :: "string option \<Rightarrow> args" where
  "ex_args t =
     \<lparr> arg_commit = None, arg_git_repository = ''/src/pkg'', arg_tag = t,
       arg_tag_prefix = ''hybris-mobian/'', arg_branch = None,
       arg_branch_prefix = ''feature/'', arg_comment = ''release'' \<rparr>"

section \<open>Facts about the string functions\<close>

lemma split_not_Nil: "split sep s \<noteq> []"
  by (induction s) (auto split: list.splits)

lemma concat_runs: "concat (runs P xs) = xs"
  by (induction xs) (auto split: list.splits)

lemma runs_not_Nil: "r \<in> set (runs P xs) \<Longrightarrow> r \<noteq> []"
  by (induction xs arbitrary: r) (auto split: list.splits if_splits)

lemma runs_uniform: "r \<in> set (runs P xs) \<Longrightarrow> x \<in> set r \<Longrightarrow> P x = P (hd r)"
proof (induction xs arbitrary: r x)
  case Nil
  then show ?case by simp
next
  case (Cons a xs)
  show ?case
  proof (cases "runs P xs")
    case Nil
    with Cons.prems show ?thesis by simp
  next
    case (Cons r0 rs)
    have ih: "\<And>y. y \<in> set r0 \<Longrightarrow> P y = P (hd r0)"
      using Cons.IH [of r0] Cons by simp
    show ?thesis
    proof (cases "P a = P (hd r0)")
      case True
      with Cons Cons.prems have "r = a # r0 \<or> r \<in> set rs"
        by simp
      then show ?thesis
      proof
        assume "r = a # r0"
        with Cons.prems(2) True ih show ?thesis by auto
      next
        assume "r \<in> set rs"
        with Cons Cons.IH [of r x] Cons.prems(2) show ?thesis by simp
      qed
    next
      case False
      with Cons Cons.prems have "r = [a] \<or> r \<in> set (runs P xs)"
        by auto
      then show ?thesis
      proof
        assume "r = [a]"
        with Cons.prems(2) show ?thesis by simp
      next
        assume "r \<in> set (runs P xs)"
        with Cons.IH [of r x] Cons.prems(2) show ?thesis by simp
      qed
    qed
  qed
qed

lemma runs_alternate: "successively (\<lambda>r r'. P (hd r) \<noteq> P (hd r')) (runs P xs)"
  by (induction xs) (auto split: list.splits if_splits simp: successively_Cons)

lemma runs_Cons:
  "runs P (x # xs) =
     (x # takeWhile (\<lambda>y. P y = P x) xs) # runs P (dropWhile (\<lambda>y. P y = P x) xs)"
  by (induction xs arbitrary: x) (auto split: list.splits if_splits)

lemma not_allowed_regex_sub_runs:
  "not_allowed_regex_sub repl s =
     concat (map (\<lambda>r. if not_allowed (hd r) then repl else r) (runs not_allowed s))"
proof (induction repl s rule: not_allowed_regex_sub.induct)
  case (1 repl)
  show ?case by simp
next
  case (2 repl c cs)
  show ?case
  proof (cases "not_allowed c")
    case True
    then have same: "(\<lambda>y. not_allowed y = not_allowed c) = not_allowed"
      by auto
    from True 2 show ?thesis
      by (simp only: runs_Cons same not_allowed_regex_sub.simps) simp
  next
    case False
    with 2 show ?thesis
      by (cases "runs not_allowed cs") auto
  qed
qed

section \<open>The slug\<close>

text \<open>
  C9. For every string \<open>s\<close>, \<open>slugify s\<close> is \<open>s\<close> lowercased with every maximal run of
  characters outside \<open>[a-z0-9_]\<close> replaced by a single dot: the runs of the lowercased
  string put together give it back, no run is empty, a run lies wholly inside or wholly
  outside the class, neighbouring runs lie on different sides (so each is maximal), and
  the slug keeps the runs inside the class and puts one dot for each run outside it.
\<close>

theorem slugify_replaces_maximal_runs:
  "slugify s = slug_by_runs s
   \<and> concat (runs not_allowed (lower s)) = lower s
   \<and> (\<forall>r \<in> set (runs not_allowed (lower s)).
         r \<noteq> [] \<and> (\<forall>x \<in> set r. not_allowed x = not_allowed (hd r)))
   \<and> successively (\<lambda>r r'. not_allowed (hd r) \<noteq> not_allowed (hd r'))
        (runs not_allowed (lower s))"
proof (intro conjI ballI)
  show "slugify s = slug_by_runs s"
    by (simp add: slugify_def slug_by_runs_def not_allowed_regex_sub_runs)
  show "concat (runs not_allowed (lower s)) = lower s"
    by (rule concat_runs)
  show "successively (\<lambda>r r'. not_allowed (hd r) \<noteq> not_allowed (hd r'))
      (runs not_allowed (lower s))"
    by (rule runs_alternate)
next
  fix r
  assume "r \<in> set (runs not_allowed (lower s))"
  then show "r \<noteq> []"
    by (rule runs_not_Nil)
next
  fix r x
  assume "r \<in> set (runs not_allowed (lower s))" and "x \<in> set r"
  then show "not_allowed x = not_allowed (hd r)"
    by (rule runs_uniform)
qed

theorem slugify_replaces_maximal_runs_witness:
  "slugify ''Feature/My_Branch -- X9!'' = ''feature.my_branch.x9.''
   \<and> runs not_allowed (lower ''Feature/My_Branch -- X9!'') =
       [''feature'', ''/'', ''my_branch'', '' -- '', ''x9'', ''!'']"
proof -
  have "slugify ''Feature/My_Branch -- X9!'' = slug_by_runs ''Feature/My_Branch -- X9!''"
    using slugify_replaces_maximal_runs [of "''Feature/My_Branch -- X9!''"] by (rule conjunct1)
  moreover have "slug_by_runs ''Feature/My_Branch -- X9!'' = ''feature.my_branch.x9.''"
    by code_simp
  moreover have "runs not_allowed (lower ''Feature/My_Branch -- X9!'') =
      [''feature'', ''/'', ''my_branch'', '' -- '', ''x9'', ''!'']"
    by code_simp
  ultimately show ?thesis by (simp only: simp_thms)
qed

section \<open>More facts about the string functions\<close>

lemma hd_split: "hd (split sep s) = takeWhile (\<lambda>c. c \<noteq> sep) s"
  by (induction s) (auto split: list.splits simp: split_not_Nil)

lemma split_no_sep: "sep \<notin> set s \<Longrightarrow> split sep s = [s]"
  by (induction s) auto

lemma split_append_sep: "sep \<notin> set a \<Longrightarrow> split sep (a @ sep # b) = a # split sep b"
  by (induction a) auto

lemma replace_from_skip: "replace_from old new (length xs) (xs @ ys) = replace_from old new 0 ys"
  by (induction xs) auto

lemma replace_strips_prefix:
  assumes "p \<noteq> []"
  shows "replace (p @ s) p new = new @ replace s p new"
proof -
  from assms obtain c cs where p: "p = c # cs"
    by (cases p) auto
  have "replace_from p new 0 (p @ s) = new @ replace_from p new (length cs) (cs @ s)"
    by (simp add: p)
  then show ?thesis
    using assms by (simp add: replace_def replace_from_skip)
qed

lemma func_unbound: "\<not> name_bound [''args'', ''kwargs''] ''func''"
  by (simp add: name_bound_def module_globals_def builtin_names_def)

lemma none_on_exception_None: "none_on_exception f x = None"
  by (simp add: none_on_exception_def func_unbound)

lemma first_result_strategies:
  "first_result (starting_version_strategies fs pkg) =
     Some (case tag pkg of
             Some t \<Rightarrow> last (split CHR ''/'' (replace t (tag_prefix pkg) []))
           | None \<Rightarrow>
               (case get_version_from_changelog fs pkg of
                  Some v \<Rightarrow> v
                | None \<Rightarrow> ''0.0.0''))"
  by (simp add: starting_version_strategies_def none_on_exception_None split: option.splits)

section \<open>The strategy that never answers\<close>

text \<open>
  C10. Whatever it is given, \<open>none_on_exception\<close> returns \<open>None\<close>: its body calls the
  name \<open>func\<close>, which neither its parameters nor the module nor the builtins bind, so
  the call raises and the bare \<open>except\<close> answers \<open>None\<close>. Hence the second strategy of
  the version resolver, the lookup of the nearest tag, never produces a value.
\<close>

theorem none_on_exception_never_returns:
  "none_on_exception f x = None
   \<and> (starting_version_strategies fs pkg ! 1) () = None"
  by (simp add: starting_version_strategies_def none_on_exception_None)

theorem none_on_exception_never_returns_witness:
  "none_on_exception (\<lambda>(x, y). describe_version x y)
     (ex_repo [ex_tag ''hybris-mobian/bookworm/1.2.3''], ''hybris-mobian/'') = None
   \<and> describe_version (ex_repo [ex_tag ''hybris-mobian/bookworm/1.2.3'']) ''hybris-mobian/''
       = Inr ''1.2.3''"
proof -
  have "describe_version (ex_repo [ex_tag ''hybris-mobian/bookworm/1.2.3'']) ''hybris-mobian/''
      = Inr ''1.2.3''"
    by code_simp
  then show ?thesis
    using none_on_exception_never_returns
      [of "\<lambda>(x, y). describe_version x y"
          "(ex_repo [ex_tag ''hybris-mobian/bookworm/1.2.3''], ''hybris-mobian/'')"]
    by simp
qed

text \<open>
  C1. The version resolver tries its strategies in order; for a repository with a
  reachable tag under the prefix and no tag on the command line, the second strategy
  should give that tag's version. The theorem runs the program on such a repository:
  \<open>git describe\<close> would lead to \<open>1.2.3\<close>, but the strategies answer \<open>0.0.0\<close> and that is
  the version printed.
\<close>

theorem nearest_tag_is_not_used:
  "describe_version (ex_repo [ex_tag ''hybris-mobian/bookworm/1.2.3'']) ''hybris-mobian/''
     = Inr ''1.2.3''
   \<and> first_result (starting_version_strategies ex_control
        (SlimPackage (ex_repo [ex_tag ''hybris-mobian/bookworm/1.2.3''])
           (hexsha ex_head) None ''hybris-mobian/'' (Some ''bookworm'') ''feature/''
           ''release'')) = Some ''0.0.0''
   \<and> stdout (main ex_lib (ex_world [ex_tag ''hybris-mobian/bookworm/1.2.3''] ex_control)
        (ex_args None)) = [''I: Resulting version is 0.0.0+git20200102030405.3c3c3c3.release'']"
  by code_simp

section \<open>The release\<close>

lemma replace_is_prefix_stripped:
  assumes "p \<noteq> []" and "startswith s p"
    and "replace (drop (length p) s) p [] = drop (length p) s"
  shows "replace s p [] = prefix_stripped p s"
proof -
  from assms(2) have "take (length p) s = p"
    by (simp add: startswith_def)
  then have "p @ drop (length p) s = s"
    by (metis append_take_drop_id)
  then have "replace s p [] = replace (p @ drop (length p) s) p []"
    by simp
  also have "\<dots> = replace (drop (length p) s) p []"
    using replace_strips_prefix [OF assms(1), of "drop (length p) s" "[]"] by simp
  finally show ?thesis
    using assms(2,3) by (simp add: prefix_stripped_def)
qed

lemma release_cached_same:
  assumes "tag pkg = Some t \<or> (tag pkg = None \<and> branch pkg = Some t)"
    and "r0 = hd (split CHR ''/'' (replace t
           (if tag pkg = None then branch_prefix pkg else tag_prefix pkg) []))"
  shows "release (pkg\<lparr>cached_release := Some r0\<rparr>) = Inr (r0, pkg\<lparr>cached_release := Some r0\<rparr>)"
proof (cases r0)
  case Nil
  with assms(2) have "hd (split CHR ''/'' (replace t
           (if tag pkg = None then branch_prefix pkg else tag_prefix pkg) [])) = []"
    by simp
  with Nil assms(1) show ?thesis
    by (auto simp: release_def Let_def)
next
  case (Cons x xs)
  then show ?thesis
    by (simp add: release_def)
qed

lemma release_again:
  assumes "cached_release pkg = None" and "release pkg = Inr (r, pkg')"
  shows "release pkg' = Inr (r, pkg')"
proof (cases "tag pkg")
  case (Some t)
  with assms have "r = hd (split CHR ''/'' (replace t (tag_prefix pkg) []))"
    and p: "pkg' = pkg\<lparr>cached_release := Some r\<rparr>"
    by (auto simp: release_def Let_def)
  with Some show ?thesis
    unfolding p by (intro release_cached_same [where t = t]) simp_all
next
  case None
  show ?thesis
  proof (cases "branch pkg")
    case nb: None
    with None assms show ?thesis by (simp add: release_def)
  next
    case (Some b)
    with None assms have "r = hd (split CHR ''/'' (replace b (branch_prefix pkg) []))"
      and p: "pkg' = pkg\<lparr>cached_release := Some r\<rparr>"
      by (auto simp: release_def Let_def)
    with None Some show ?thesis
      unfolding p by (intro release_cached_same [where t = b]) simp_all
  qed
qed

text \<open>
  C6, as amended. On a newly built object (its release not cached yet): when a tag is
  supplied, the release is the tag with every occurrence of the tag prefix removed, up
  to the first \<open>/\<close>; otherwise, when a branch is available, the branch with every
  occurrence of the branch prefix removed, up to the first \<open>/\<close>; otherwise the property
  raises, and it raises exactly when both are absent. A second access gives the same
  release. Where the name starts with the prefix and holds it nowhere else, removing
  every occurrence is stripping the prefix.
\<close>

theorem release_resolution:
  assumes "cached_release pkg = None"
  shows "(\<forall>t. tag pkg = Some t \<longrightarrow>
            (\<exists>pkg'. release pkg =
               Inr (takeWhile (\<lambda>c. c \<noteq> CHR ''/'') (replace t (tag_prefix pkg) []), pkg')))
       \<and> (\<forall>b. tag pkg = None \<and> branch pkg = Some b \<longrightarrow>
            (\<exists>pkg'. release pkg =
               Inr (takeWhile (\<lambda>c. c \<noteq> CHR ''/'') (replace b (branch_prefix pkg) []), pkg')))
       \<and> (tag pkg = None \<and> branch pkg = None \<longrightarrow>
            release pkg =
              Inl (Exception ''At least one between tag and branch must be specified''))
       \<and> ((\<exists>e. release pkg = Inl e) \<longleftrightarrow> tag pkg = None \<and> branch pkg = None)
       \<and> (\<forall>r pkg'. release pkg = Inr (r, pkg') \<longrightarrow> release pkg' = Inr (r, pkg'))
       \<and> (\<forall>p s. p \<noteq> [] \<and> startswith s p
                 \<and> replace (drop (length p) s) p [] = drop (length p) s \<longrightarrow>
               replace s p [] = prefix_stripped p s)"
proof (intro conjI allI impI)
  fix t
  assume "tag pkg = Some t"
  with assms show "\<exists>pkg'. release pkg =
      Inr (takeWhile (\<lambda>c. c \<noteq> CHR ''/'') (replace t (tag_prefix pkg) []), pkg')"
    by (simp add: release_def hd_split Let_def)
next
  fix b
  assume "tag pkg = None \<and> branch pkg = Some b"
  with assms show "\<exists>pkg'. release pkg =
      Inr (takeWhile (\<lambda>c. c \<noteq> CHR ''/'') (replace b (branch_prefix pkg) []), pkg')"
    by (simp add: release_def hd_split Let_def)
next
  assume "tag pkg = None \<and> branch pkg = None"
  with assms show "release pkg =
      Inl (Exception ''At least one between tag and branch must be specified'')"
    by (simp add: release_def)
next
  show "(\<exists>e. release pkg = Inl e) \<longleftrightarrow> tag pkg = None \<and> branch pkg = None"
    using assms by (auto simp: release_def Let_def split: option.splits)
next
  fix r pkg'
  assume "release pkg = Inr (r, pkg')"
  with assms show "release pkg' = Inr (r, pkg')"
    by (rule release_again)
next
  fix p s
  assume "p \<noteq> [] \<and> startswith s p
    \<and> replace (drop (length p) s) p [] = drop (length p) s"
  then show "replace s p [] = prefix_stripped p s"
    by (intro replace_is_prefix_stripped) simp_all
qed

theorem release_resolution_witness:
  "map_sum id fst (release (SlimPackage (ex_repo []) (hexsha ex_head)
      (Some ''hybris-mobian/bookworm/1.2.3'') ''hybris-mobian/'' (Some ''feature/trixie/x'')
      ''feature/'' ''release'')) = Inr ''bookworm''
   \<and> map_sum id fst (release (SlimPackage (ex_repo []) (hexsha ex_head)
      None ''hybris-mobian/'' (Some ''feature/trixie/x'') ''feature/'' ''release''))
     = Inr ''trixie''
   \<and> release (SlimPackage (ex_repo []) (hexsha ex_head)
      None ''hybris-mobian/'' None ''feature/'' ''release'')
     = Inl (Exception ''At least one between tag and branch must be specified'')
   \<and> replace ''hybris-mobian/bookworm/1.2.3'' ''hybris-mobian/'' [] =
       prefix_stripped ''hybris-mobian/'' ''hybris-mobian/bookworm/1.2.3''
   \<and> (\<exists>again. release (SlimPackage (ex_repo []) (hexsha ex_head)
          None ''hybris-mobian/'' (Some ''feature/trixie/x'') ''feature/'' ''release'')
          = Inr (''trixie'', again)
        \<and> release again = Inr (''trixie'', again))"
proof -
  let ?p = "\<lambda>t b. SlimPackage (ex_repo []) (hexsha ex_head) t ''hybris-mobian/'' b
              ''feature/'' ''release''"
  have c: "\<And>t b. cached_release (?p t b) = None"
    by (simp add: SlimPackage_def)
  have r1: "replace ''hybris-mobian/bookworm/1.2.3'' ''hybris-mobian/'' [] = ''bookworm/1.2.3''"
    by code_simp
  have r2: "replace ''feature/trixie/x'' ''feature/'' [] = ''trixie/x''"
    by code_simp
  have 1: "map_sum id fst
      (release (?p (Some ''hybris-mobian/bookworm/1.2.3'') (Some ''feature/trixie/x'')))
     = Inr ''bookworm''"
    using release_resolution [OF c [of "Some ''hybris-mobian/bookworm/1.2.3''"
      "Some ''feature/trixie/x''"], THEN conjunct1]
    by (auto simp: SlimPackage_def r1)
  have 2: "map_sum id fst (release (?p None (Some ''feature/trixie/x''))) = Inr ''trixie''"
    using release_resolution [OF c [of None "Some ''feature/trixie/x''"],
      THEN conjunct2, THEN conjunct1]
    by (auto simp: SlimPackage_def r2)
  have 3: "release (?p None None)
     = Inl (Exception ''At least one between tag and branch must be specified'')"
    using release_resolution [OF c [of None None], THEN conjunct2, THEN conjunct2,
      THEN conjunct1]
    by (simp add: SlimPackage_def)
  have s1: "''hybris-mobian/'' \<noteq> []
     \<and> startswith ''hybris-mobian/bookworm/1.2.3'' ''hybris-mobian/''
     \<and> replace (drop (length ''hybris-mobian/'') ''hybris-mobian/bookworm/1.2.3'')
         ''hybris-mobian/'' [] =
       drop (length ''hybris-mobian/'') ''hybris-mobian/bookworm/1.2.3''"
    by code_simp
  have 4: "replace ''hybris-mobian/bookworm/1.2.3'' ''hybris-mobian/'' [] =
       prefix_stripped ''hybris-mobian/'' ''hybris-mobian/bookworm/1.2.3''"
    using release_resolution [OF c [of None None], THEN conjunct2, THEN conjunct2,
      THEN conjunct2, THEN conjunct2, THEN conjunct2, THEN spec, THEN spec, THEN mp, OF s1] .
  from 2 obtain again where
    first: "release (?p None (Some ''feature/trixie/x'')) = Inr (''trixie'', again)"
    by (cases "release (?p None (Some ''feature/trixie/x''))") auto
  have "release again = Inr (''trixie'', again)"
    using release_resolution [OF c [of None "Some ''feature/trixie/x''"], THEN conjunct2,
      THEN conjunct2, THEN conjunct2, THEN conjunct2, THEN conjunct1, THEN spec, THEN spec,
      THEN mp, OF first] .
  with first have 5: "\<exists>again. release (?p None (Some ''feature/trixie/x'')) = Inr (''trixie'', again)
        \<and> release again = Inr (''trixie'', again)"
    by blast
  from 1 2 3 4 5 show ?thesis by (intro conjI)
qed

text \<open>
  C6 as stated fails where the prefix stands elsewhere than at the start: the branch
  \<open>new-feature/x\<close> does not start with \<open>feature/\<close>, so stripping the prefix leaves it
  as it is with first segment \<open>new-feature\<close>, but the release is \<open>new-x\<close>; the tag
  \<open>hybris-mobian/my-hybris-mobian/1.0\<close> with its prefix stripped has first segment
  \<open>my-hybris-mobian\<close>, but the release is \<open>my-1.0\<close>.
\<close>

theorem release_removes_every_occurrence:
  "map_sum id fst (release (SlimPackage (ex_repo []) (hexsha ex_head)
      None ''hybris-mobian/'' (Some ''new-feature/x'') ''feature/'' ''release''))
     = Inr ''new-x''
   \<and> hd (split CHR ''/'' (prefix_stripped ''feature/'' ''new-feature/x'')) = ''new-feature''
   \<and> map_sum id fst (release (SlimPackage (ex_repo []) (hexsha ex_head)
      (Some ''hybris-mobian/my-hybris-mobian/1.0'') ''hybris-mobian/'' None ''feature/''
      ''release'')) = Inr ''my-1.0''
   \<and> hd (split CHR ''/''
        (prefix_stripped ''hybris-mobian/'' ''hybris-mobian/my-hybris-mobian/1.0''))
       = ''my-hybris-mobian''"
  by code_simp

section \<open>The version string\<close>

lemma first_result_always: "\<exists>base. first_result (starting_version_strategies fs pkg) = Some base"
  by (simp add: first_result_strategies)

text \<open>
  C3, as amended. When the target commit resolves, the strategies resolve a base
  version, and for every base version they resolve, the version is that base followed
  by \<open>+git\<close>, the committed time as the library formats it, a dot, the first seven
  characters of the commit hash, a dot, and the slug of the comment with the branch
  prefix removed: a dot stands between the time and the hash. In particular, for a
  repository whose starting commit is the root, with no tags (so that the describe
  lookup gives no version), no prior changelog, no tag supplied and the comment
  \<open>release\<close> in which the branch prefix does not occur, the version is
  \<open>0.0.0+git<time>.<hash>.release\<close>.
\<close>

theorem version_format:
  assumes "commit_of repository h = Some c"
  shows "(\<exists>base. first_result (starting_version_strategies fs
                     (SlimPackage repository h t tp b bp cm)) = Some base)
       \<and> (\<forall>base. first_result (starting_version_strategies fs
                     (SlimPackage repository h t tp b bp cm)) = Some base \<longrightarrow>
            map_sum id fst (version l fs (SlimPackage repository h t tp b bp cm)) =
              Inr (base @ ''+git'' @ strftime l (committed_date c) @ ''.'' @ take 7 h
                   @ ''.'' @ slugify (replace cm bp [])))
       \<and> (parents c = [] \<and> tags repository = []
            \<and> (\<forall>v. describe_version repository tp \<noteq> Inr v)
            \<and> fs (path_join (working_dir repository) ''debian/changelog'') = None
            \<and> t = None \<and> cm = ''release'' \<and> replace ''release'' bp [] = ''release'' \<longrightarrow>
          map_sum id fst (version l fs (SlimPackage repository h t tp b bp cm)) =
            Inr (''0.0.0+git'' @ strftime l (committed_date c) @ ''.'' @ take 7 h
                 @ ''.release''))"
proof -
  let ?pkg = "SlimPackage repository h t tp b bp cm"
  have suffix: "map_sum id fst (version l fs ?pkg) =
      Inr (base @ ''+git'' @ strftime l (committed_date c) @ ''.'' @ take 7 h
           @ ''.'' @ slugify (replace cm bp []))"
    if "first_result (starting_version_strategies fs ?pkg) = Some base" for base
    using assms that
    by (simp add: version_def SlimPackage_def str_or_None_def Let_def)
  have base0: "first_result (starting_version_strategies fs ?pkg) = Some ''0.0.0''"
    if "t = None" and "fs (path_join (working_dir repository) ''debian/changelog'') = None"
    using that
    by (simp add: first_result_strategies get_version_from_changelog_def SlimPackage_def)
  have slug: "slugify ''release'' = ''release''"
    by code_simp
  show ?thesis
  proof (intro conjI allI impI)
    show "\<exists>base. first_result (starting_version_strategies fs ?pkg) = Some base"
      by (rule first_result_always)
  next
    fix base
    assume "first_result (starting_version_strategies fs ?pkg) = Some base"
    then show "map_sum id fst (version l fs ?pkg) =
      Inr (base @ ''+git'' @ strftime l (committed_date c) @ ''.'' @ take 7 h
           @ ''.'' @ slugify (replace cm bp []))"
      by (rule suffix)
  next
    assume a: "parents c = [] \<and> tags repository = []
            \<and> (\<forall>v. describe_version repository tp \<noteq> Inr v)
            \<and> fs (path_join (working_dir repository) ''debian/changelog'') = None
            \<and> t = None \<and> cm = ''release'' \<and> replace ''release'' bp [] = ''release''"
    then have "first_result (starting_version_strategies fs ?pkg) = Some ''0.0.0''"
      by (intro base0) simp_all
    from suffix [OF this] a show "map_sum id fst (version l fs ?pkg) =
            Inr (''0.0.0+git'' @ strftime l (committed_date c) @ ''.'' @ take 7 h
                 @ ''.release'')"
      by (simp add: slug)
  qed
qed

theorem version_format_witness:
  "map_sum id fst (version ex_lib ex_control
       (SlimPackage (ex_repo []) (hexsha ex_root) None ''hybris-mobian/'' (Some ''bookworm'')
          ''feature/'' ''release''))
     = Inr ''0.0.0+git20200102030405.1a1a1a1.release''
   \<and> first_result (starting_version_strategies ex_control
       (SlimPackage (ex_repo []) (hexsha ex_root) (Some ''hybris-mobian/bookworm/2.0'')
          ''hybris-mobian/'' None ''feature/'' ''release'')) = Some ''2.0''
   \<and> map_sum id fst (version ex_lib ex_control
       (SlimPackage (ex_repo []) (hexsha ex_root) (Some ''hybris-mobian/bookworm/2.0'')
          ''hybris-mobian/'' None ''feature/'' ''release''))
     = Inr (''2.0'' @ ''+git'' @ ''20200102030405'' @ ''.'' @ ''1a1a1a1'' @ ''.'' @ ''release'')"
proof -
  have c: "commit_of (ex_repo []) (hexsha ex_root) = Some ex_root"
    by code_simp
  have f: "ex_control (path_join (working_dir (ex_repo [])) ''debian/changelog'') = None"
    by code_simp
  have r: "parents ex_root = []" "tags (ex_repo []) = []"
    by (simp_all add: ex_root_def ex_repo_def)
  have d: "\<forall>v. describe_version (ex_repo []) ''hybris-mobian/'' \<noteq> Inr v"
    by (simp add: describe_version_def ex_repo_def)
  have p: "replace ''release'' ''feature/'' [] = ''release''"
    by code_simp
  have t: "strftime ex_lib (committed_date ex_root) = ''20200102030405''"
    by (simp add: ex_lib_def)
  have h: "take 7 (hexsha ex_root) = ''1a1a1a1''"
    by (simp add: ex_root_def)
  have all: "parents ex_root = [] \<and> tags (ex_repo []) = []
            \<and> (\<forall>v. describe_version (ex_repo []) ''hybris-mobian/'' \<noteq> Inr v)
            \<and> ex_control (path_join (working_dir (ex_repo [])) ''debian/changelog'') = None
            \<and> None = None \<and> ''release'' = ''release''
            \<and> replace ''release'' ''feature/'' [] = ''release''"
    using f r d p by simp
  have "map_sum id fst (version ex_lib ex_control
       (SlimPackage (ex_repo []) (hexsha ex_root) None ''hybris-mobian/'' (Some ''bookworm'')
          ''feature/'' ''release''))
     = Inr (''0.0.0+git'' @ strftime ex_lib (committed_date ex_root) @ ''.''
            @ take 7 (hexsha ex_root) @ ''.release'')"
    using version_format [OF c, of ex_control None "''hybris-mobian/''"
      "Some ''bookworm''" "''feature/''" "''release''" ex_lib, THEN conjunct2,
      THEN conjunct2, THEN mp, OF all] .
  then have 1: "map_sum id fst (version ex_lib ex_control
       (SlimPackage (ex_repo []) (hexsha ex_root) None ''hybris-mobian/'' (Some ''bookworm'')
          ''feature/'' ''release''))
     = Inr ''0.0.0+git20200102030405.1a1a1a1.release''"
    by (simp add: t h)
  have 2: "first_result (starting_version_strategies ex_control
       (SlimPackage (ex_repo []) (hexsha ex_root) (Some ''hybris-mobian/bookworm/2.0'')
          ''hybris-mobian/'' None ''feature/'' ''release'')) = Some ''2.0''"
    by code_simp
  have s: "slugify (replace ''release'' ''feature/'' []) = ''release''"
    by code_simp
  have 3: "map_sum id fst (version ex_lib ex_control
       (SlimPackage (ex_repo []) (hexsha ex_root) (Some ''hybris-mobian/bookworm/2.0'')
          ''hybris-mobian/'' None ''feature/'' ''release''))
     = Inr (''2.0'' @ ''+git'' @ ''20200102030405'' @ ''.'' @ ''1a1a1a1'' @ ''.'' @ ''release'')"
    using version_format [OF c, of ex_control "Some ''hybris-mobian/bookworm/2.0''"
      "''hybris-mobian/''" None "''feature/''" "''release''" ex_lib, THEN conjunct2,
      THEN conjunct1, THEN spec, THEN mp, OF 2]
    unfolding t h s .
  from 1 2 3 show ?thesis
    by (intro conjI)
qed

text \<open>
  C3 as stated fails. On the root commit of the example, in a repository with no tags
  and no prior changelog, the version is not the base version, \<open>+git\<close>, the time and
  the short hash set next to each other, a dot and the slug. There, a tag supplied on
  the command line gives its own base version instead of \<open>0.0.0\<close>, and a branch prefix
  that occurs in the comment \<open>release\<close> changes the last part.
\<close>

theorem version_has_dot_between_timestamp_and_hash:
  "map_sum id fst (version ex_lib ex_control
       (SlimPackage (ex_repo []) (hexsha ex_root) None ''hybris-mobian/'' (Some ''bookworm'')
          ''feature/'' ''release''))
     \<noteq> Inr (''0.0.0'' @ ''+git'' @ strftime ex_lib (committed_date ex_root)
               @ take 7 (hexsha ex_root) @ ''.'' @ slugify ''release'')
   \<and> map_sum id fst (version ex_lib ex_control
       (SlimPackage (ex_repo []) (hexsha ex_root) (Some ''hybris-mobian/bookworm/2.0'')
          ''hybris-mobian/'' None ''feature/'' ''release''))
     = Inr ''2.0+git20200102030405.1a1a1a1.release''
   \<and> map_sum id fst (version ex_lib ex_control
       (SlimPackage (ex_repo []) (hexsha ex_root) None ''hybris-mobian/'' (Some ''bookworm'')
          ''rel'' ''release''))
     = Inr ''0.0.0+git20200102030405.1a1a1a1.ease''"
  by code_simp

section \<open>Entries and the walk\<close>

lemma keys_insert_message:
  "map fst (insert_message a m cts) =
     (if a \<in> set (map fst cts) then map fst cts else map fst cts @ [a])"
proof (induction cts)
  case Nil
  show ?case by simp
next
  case (Cons kv cts)
  obtain k ms where kv: "kv = (k, ms)"
    by (cases kv)
  show ?case
    using Cons.IH by (cases "k = a") (simp_all add: kv)
qed

lemma contents_fold_add_commit:
  "contents (fold add_commit cs e) =
     fold (\<lambda>c. insert_message (author_name c) (first_line c)) cs (contents e)"
  by (induction cs arbitrary: e) (simp_all add: add_commit_def)

lemma keys_fold_insert_message:
  "map fst (fold (\<lambda>c. insert_message (author_name c) (first_line c)) cs acc) =
     map fst acc @ filter (\<lambda>a. a \<notin> set (map fst acc)) (first_seen (map author_name cs))"
proof (induction cs arbitrary: acc)
  case Nil
  show ?case by simp
next
  case (Cons c cs)
  show ?case
  proof (cases "author_name c \<in> set (map fst acc)")
    case True
    then have "filter (\<lambda>a. a \<notin> set (map fst acc))
        (filter (\<lambda>y. y \<noteq> author_name c) (first_seen (map author_name cs))) =
        filter (\<lambda>a. a \<notin> set (map fst acc)) (first_seen (map author_name cs))"
      by (auto intro: filter_cong)
    with True show ?thesis
      by (simp add: Cons.IH keys_insert_message)
  next
    case False
    have "filter (\<lambda>a. a \<notin> set (map fst acc) \<and> a \<noteq> author_name c)
        (first_seen (map author_name cs)) =
        filter (\<lambda>a. a \<noteq> author_name c \<and> a \<notin> set (map fst acc))
        (first_seen (map author_name cs))"
      by (auto intro: filter_cong)
    with False show ?thesis
      by (simp add: Cons.IH keys_insert_message)
  qed
qed

lemma keys_entry_of: "map fst (contents (entry_of l cs)) = first_seen (map author_name cs)"
  by (simp add: entry_of_def contents_fold_add_commit keys_fold_insert_message new_entry_def)

lemma distinct_first_seen: "distinct (first_seen xs)"
  by (induction xs) auto

lemma set_first_seen: "set (first_seen xs) = set xs"
  by (induction xs) auto

lemma messages_fold_insert_message:
  assumes "distinct (map fst acc)"
  shows "map_of (fold (\<lambda>c. insert_message (author_name c) (first_line c)) cs acc) a =
     (let new = rev (map first_line (filter (\<lambda>c. author_name c = a) cs))
      in case map_of acc a of
           None \<Rightarrow> (if new = [] then None else Some new)
         | Some old \<Rightarrow> Some (new @ old))"
  using assms
proof (induction cs arbitrary: acc)
  case Nil
  show ?case by (simp split: option.splits)
next
  case (Cons c cs)
  have d: "distinct (map fst (insert_message (author_name c) (first_line c) acc))"
    using Cons.prems by (simp add: keys_insert_message)
  have m: "map_of (insert_message (author_name c) (first_line c) acc) a =
      (if a = author_name c
       then Some (first_line c # (case map_of acc a of None \<Rightarrow> [] | Some old \<Rightarrow> old))
       else map_of acc a)"
    by (induction acc) auto
  show ?case
    by (simp add: Cons.IH [OF d] m Let_def split: option.splits)
qed

lemma messages_entry_of:
  assumes "(a, ms) \<in> set (contents (entry_of l cs))"
  shows "ms = rev (map first_line (filter (\<lambda>c. author_name c = a) cs))"
proof -
  have "distinct (map fst (contents (entry_of l cs)))"
    by (simp add: keys_entry_of distinct_first_seen)
  with assms have "map_of (contents (entry_of l cs)) a = Some ms"
    by simp
  then show ?thesis
    by (simp add: entry_of_def contents_fold_add_commit messages_fold_insert_message
          new_entry_def Let_def split: if_splits)
qed

lemma entry_of_single: "entry_of l [c] = add_commit c (new_entry l c)"
  by (simp add: entry_of_def)

lemma entry_of_snoc: "seg \<noteq> [] \<Longrightarrow> entry_of l (seg @ [c]) = add_commit c (entry_of l seg)"
  by (simp add: entry_of_def)

lemma walk_step:
  "set (fst (walk l fs tgs (c # cs) entry nv pkg)) \<subseteq>
     (if (tgs (hexsha c) \<noteq> None \<and> hexsha c \<noteq> commit_hash pkg) \<or> parents c = []
      then {d. \<exists>n ver rel e. d = template_dict n ver rel e \<and>
                 Some e = (if parents c = []
                           then Some (add_commit c (case entry of None \<Rightarrow> new_entry l c
                                                     | Some e \<Rightarrow> e))
                           else entry)}
           \<union> (\<Union>nv' pkg'. set (fst (walk l fs tgs cs (Some (add_commit c (new_entry l c)))
                                      nv' pkg')))
      else set (fst (walk l fs tgs cs
                  (Some (add_commit c (case entry of None \<Rightarrow> new_entry l c | Some e \<Rightarrow> e)))
                  nv pkg)))"
  by (auto simp: Let_def split: list.splits option.splits sum.splits prod.splits if_splits)
     (metis fst_conv)+

lemma suffix_sublist_append: "suffix seg xs \<Longrightarrow> sublist seg (xs @ ys)"
  by (metis append.assoc sublist_def suffix_def)

lemma walk_plain:
  assumes "\<not> ((tgs (hexsha c) \<noteq> None \<and> hexsha c \<noteq> commit_hash pkg) \<or> parents c = [])"
  shows "walk l fs tgs (c # cs) entry nv pkg =
     walk l fs tgs cs
       (Some (add_commit c (case entry of None \<Rightarrow> new_entry l c | Some e \<Rightarrow> e))) nv pkg"
  using assms by auto

lemma walk_stanzas:
  assumes "entry = None \<or> (\<exists>seg. seg \<noteq> [] \<and> suffix seg pre \<and> entry = Some (entry_of l seg))"
    and "d \<in> set (fst (walk l fs tgs cs entry nv pkg))"
  shows "\<exists>seg n ver rel. seg \<noteq> [] \<and> sublist seg (pre @ cs) \<and>
           d = template_dict n ver rel (entry_of l seg)"
  using assms
proof (induction cs arbitrary: entry pre nv pkg)
  case Nil
  then show ?case by simp
next
  case (Cons c cs)
  let ?grown = "add_commit c (case entry of None \<Rightarrow> new_entry l c | Some e \<Rightarrow> e)"
  from Cons.prems(1) obtain seg' where seg':
    "seg' \<noteq> []" "suffix seg' (pre @ [c])" "?grown = entry_of l seg'"
  proof
    assume "entry = None"
    then have "[c] \<noteq> []" "suffix [c] (pre @ [c])" "?grown = entry_of l [c]"
      by (simp_all add: entry_of_single)
    then show ?thesis by (rule that)
  next
    assume "\<exists>seg. seg \<noteq> [] \<and> suffix seg pre \<and> entry = Some (entry_of l seg)"
    then obtain seg where "seg \<noteq> []" "suffix seg pre" "entry = Some (entry_of l seg)"
      by blast
    then have "seg @ [c] \<noteq> []" "suffix (seg @ [c]) (pre @ [c])"
      "?grown = entry_of l (seg @ [c])"
      by (simp_all add: entry_of_snoc)
    then show ?thesis by (rule that)
  qed
  have fresh: "Some (add_commit c (new_entry l c)) = None \<or>
      (\<exists>seg. seg \<noteq> [] \<and> suffix seg (pre @ [c]) \<and>
         Some (add_commit c (new_entry l c)) = Some (entry_of l seg))"
    by (rule disjI2, rule exI [of _ "[c]"]) (simp add: entry_of_single)
  have grown: "Some ?grown = None \<or>
      (\<exists>seg. seg \<noteq> [] \<and> suffix seg (pre @ [c]) \<and> Some ?grown = Some (entry_of l seg))"
    using seg' by blast
  show ?case
  proof (cases "(tgs (hexsha c) \<noteq> None \<and> hexsha c \<noteq> commit_hash pkg) \<or> parents c = []")
    case False
    from Cons.prems(2) have "d \<in> set (fst (walk l fs tgs cs (Some ?grown) nv pkg))"
      unfolding walk_plain [where tgs = tgs and c = c and pkg = pkg, OF False] .
    from Cons.IH [OF grown this] show ?thesis by simp
  next
    case True
    with walk_step [of l fs tgs c cs entry nv pkg] Cons.prems(2)
    consider (first) n ver rel e where "d = template_dict n ver rel e"
        "Some e = (if parents c = [] then Some ?grown else entry)"
      | (later) nv' pkg' where
        "d \<in> set (fst (walk l fs tgs cs (Some (add_commit c (new_entry l c))) nv' pkg'))"
      by auto
    then show ?thesis
    proof cases
      case first
      show ?thesis
      proof (cases "parents c = []")
        case True
        with first have "d = template_dict n ver rel (entry_of l seg')"
          by (simp add: seg')
        moreover from seg'(2) have "sublist seg' ((pre @ [c]) @ cs)"
          by (rule suffix_sublist_append)
        then have "sublist seg' (pre @ c # cs)"
          by simp
        ultimately show ?thesis using seg'(1) by blast
      next
        case False
        with first have "entry = Some e" by simp
        with Cons.prems(1) obtain seg where seg: "seg \<noteq> []" "suffix seg pre" "e = entry_of l seg"
          by auto
        from seg(2) have "sublist seg (pre @ c # cs)"
          by (rule suffix_sublist_append)
        with first seg show ?thesis by blast
      qed
    next
      case later
      from Cons.IH [OF fresh later] show ?thesis by simp
    qed
  qed
qed

lemma release_keeps: "release pkg = Inr (r, p') \<Longrightarrow> \<exists>x. p' = pkg\<lparr>cached_release := x\<rparr>"
  by (auto simp: release_def Let_def split: option.splits list.splits
      intro: exI [of _ "cached_release pkg"])

lemma version_keeps: "version l fs pkg = Inr (v, p') \<Longrightarrow> \<exists>x. p' = pkg\<lparr>cached_version := x\<rparr>"
  by (auto simp: version_def Let_def split: option.splits
      intro: exI [of _ "cached_version pkg"])

lemma name_keeps: "name fs pkg = Inr (n, p') \<Longrightarrow> \<exists>x. p' = pkg\<lparr>cached_name := x\<rparr>"
  by (auto simp: name_def Let_def split: option.splits
      intro: exI [of _ "cached_name pkg"])

lemma iter_changelog_stanzas:
  assumes "s \<in> set (fst (iter_changelog l fs pkg))"
  shows "\<exists>cs seg n ver rel.
           iter_commits (git_repository pkg) (commit_hash pkg) = Some cs \<and>
           seg \<noteq> [] \<and> sublist seg cs \<and>
           s = DEBIAN_CHANGELOG_TEMPLATE (template_dict n ver rel (entry_of l seg))"
proof -
  from assms obtain rel0 pkg1 ver0 pkg2 cs ds err where
    r: "release pkg = Inr (rel0, pkg1)" and v: "version l fs pkg1 = Inr (ver0, pkg2)"
    and c: "iter_commits (git_repository pkg2) (commit_hash pkg2) = Some cs"
    and w: "walk l fs (tags_dict pkg) cs None (rel0 @ ''/'' @ ver0) pkg2 = (ds, err)"
    and s: "s \<in> set (map DEBIAN_CHANGELOG_TEMPLATE ds)"
    by (auto simp: iter_changelog_def Let_def split: sum.splits option.splits prod.splits)
  from s obtain d where d: "d \<in> set ds" "s = DEBIAN_CHANGELOG_TEMPLATE d"
    by auto
  from d(1) w have "d \<in> set (fst (walk l fs (tags_dict pkg) cs None (rel0 @ ''/'' @ ver0) pkg2))"
    by simp
  from walk_stanzas [where pre = "[]", OF _ this]
  obtain seg n ver rel where "seg \<noteq> []" "sublist seg cs"
    "d = template_dict n ver rel (entry_of l seg)"
    by auto
  moreover from release_keeps [OF r] version_keeps [OF v] c
  have "iter_commits (git_repository pkg) (commit_hash pkg) = Some cs"
    by auto
  ultimately show ?thesis
    using d(2) by blast
qed

lemma replace_char: "replace s [x] [y] = map (\<lambda>c. if c = x then y else c) s"
proof -
  have "replace_from [x] [y] 0 s = map (\<lambda>c. if c = x then y else c) s"
    by (induction s) auto
  then show ?thesis
    by (simp add: replace_def)
qed

lemma sanitize_tag_version_map:
  "sanitize_tag_version v =
     map (\<lambda>c. if c = CHR ''_'' then CHR ''~'' else if c = CHR ''%'' then CHR '':'' else c) v"
  by (simp add: sanitize_tag_version_def replace_char)

section \<open>The entries\<close>

text \<open>
  C8. In the entry built over a stretch of the walk, each author's list of messages is
  the reverse of the order in which the walk met that author's commits: the walk goes
  from the newest commit to the oldest and puts each first line at the front, so the
  oldest commit's line comes first. Every stanza \<open>iter_changelog\<close> yields is rendered
  from such an entry, over a stretch of consecutive commits of the walk.
\<close>

theorem finalized_entries_oldest_first:
  "(\<forall>(a, ms) \<in> set (contents (entry_of l seg)).
       ms = rev (map first_line (filter (\<lambda>c. author_name c = a) seg)))
   \<and> (\<forall>s \<in> set (fst (iter_changelog l fs pkg)).
         \<exists>cs seg n ver rel.
           iter_commits (git_repository pkg) (commit_hash pkg) = Some cs \<and>
           seg \<noteq> [] \<and> sublist seg cs \<and>
           s = DEBIAN_CHANGELOG_TEMPLATE (template_dict n ver rel (entry_of l seg)))"
  using messages_entry_of iter_changelog_stanzas by blast

theorem finalized_entries_oldest_first_witness:
  "contents (entry_of ex_lib [ex_head, ex_tagged, ex_root]) =
     [(''Alice'', [''Initial import'', ''Add feature_x'']), (''Bob'', [''Prepare the release''])]
   \<and> rev (map first_line (filter (\<lambda>c. author_name c = ''Alice'') [ex_head, ex_tagged, ex_root]))
       = [''Initial import'', ''Add feature_x'']"
proof -
  have c: "contents (entry_of ex_lib [ex_head, ex_tagged, ex_root]) =
     [(''Alice'', [''Initial import'', ''Add feature_x'']), (''Bob'', [''Prepare the release''])]"
    by code_simp
  then have "(''Alice'', [''Initial import'', ''Add feature_x''])
      \<in> set (contents (entry_of ex_lib [ex_head, ex_tagged, ex_root]))"
    by simp
  with finalized_entries_oldest_first [of ex_lib "[ex_head, ex_tagged, ex_root]"]
  have "[''Initial import'', ''Add feature_x''] =
      rev (map first_line (filter (\<lambda>c. author_name c = ''Alice'') [ex_head, ex_tagged, ex_root]))"
    by blast
  with c show ?thesis by simp
qed

section \<open>One tag, two stanzas\<close>

lemma walk_plain_run:
  assumes "\<forall>c \<in> set cs.
      \<not> ((tgs (hexsha c) \<noteq> None \<and> hexsha c \<noteq> commit_hash pkg) \<or> parents c = [])"
  shows "walk l fs tgs (cs @ rest) entry nv pkg =
     walk l fs tgs rest
       (if cs = [] then entry
        else Some (fold add_commit cs
                     (case entry of None \<Rightarrow> new_entry l (hd cs) | Some e \<Rightarrow> e)))
       nv pkg"
  using assms
proof (induction cs arbitrary: entry)
  case Nil
  show ?case by simp
next
  case (Cons c cs)
  from Cons.prems
  have c: "\<not> ((tgs (hexsha c) \<noteq> None \<and> hexsha c \<noteq> commit_hash pkg) \<or> parents c = [])"
    and cs: "\<forall>c \<in> set cs.
      \<not> ((tgs (hexsha c) \<noteq> None \<and> hexsha c \<noteq> commit_hash pkg) \<or> parents c = [])"
    by simp_all
  have "walk l fs tgs ((c # cs) @ rest) entry nv pkg =
      walk l fs tgs (cs @ rest)
        (Some (add_commit c (case entry of None \<Rightarrow> new_entry l c | Some e \<Rightarrow> e))) nv pkg"
    using walk_plain [where tgs = tgs and c = c and pkg = pkg, OF c]
    by (simp del: walk.simps)
  also have "\<dots> = walk l fs tgs rest
       (if cs = []
        then Some (add_commit c (case entry of None \<Rightarrow> new_entry l c | Some e \<Rightarrow> e))
        else Some (fold add_commit cs
                     (add_commit c (case entry of None \<Rightarrow> new_entry l c | Some e \<Rightarrow> e))))
       nv pkg"
    by (simp add: Cons.IH [OF cs] del: walk.simps)
  finally show ?case by (cases entry) (simp_all del: walk.simps)
qed

lemma walk_tag_boundary:
  assumes "tgs (hexsha c) = Some nv'" and "hexsha c \<noteq> commit_hash pkg" and "parents c \<noteq> []"
    and "split CHR ''/'' nv = [rel, ver]" and "name fs pkg = Inr (n, pkg')"
  shows "walk l fs tgs (c # cs) (Some e) nv pkg =
     (case walk l fs tgs cs (Some (add_commit c (new_entry l c))) nv' pkg' of
        (ds, err) \<Rightarrow> (template_dict n ver rel e # ds, err))"
  using assms by simp

lemma walk_root_boundary:
  assumes "parents c = []"
    and "split CHR ''/'' nv = [rel, ver]" and "name fs pkg = Inr (n, pkg')"
  shows "walk l fs tgs (c # cs) entry nv pkg =
     (case walk l fs tgs cs (Some (add_commit c (new_entry l c))) nv pkg' of
        (ds, err) \<Rightarrow>
          (template_dict n ver rel
             (add_commit c (case entry of None \<Rightarrow> new_entry l c | Some e \<Rightarrow> e)) # ds, err))"
  using assms by simp

lemma name_again:
  assumes "name fs pkg = Inr (n, pkg')"
  shows "name fs pkg' = Inr (n, pkg')" and "commit_hash pkg' = commit_hash pkg"
  using assms by (auto simp: name_def Let_def split: option.splits)

lemma release_no_slash:
  assumes "cached_release pkg = None" and "release pkg = Inr (r, pkg')"
  shows "CHR ''/'' \<notin> set r"
  using assms
  by (auto simp: release_def hd_split Let_def split: option.splits dest: set_takeWhileD)

lemma split_two:
  assumes "CHR ''/'' \<notin> set a" and "CHR ''/'' \<notin> set b"
  shows "split CHR ''/'' (a @ ''/'' @ b) = [a, b]"
  using assms by (simp add: split_append_sep split_no_sep)

lemma tags_dict_single:
  assumes "filter (\<lambda>x. startswith (tag_name x) (tag_prefix pkg)) (tags (git_repository pkg)) = [T]"
  shows "tags_dict pkg = (\<lambda>h. if h = tag_commit T
                               then Some (replace (tag_name T) (tag_prefix pkg) []) else None)"
  using assms by (auto simp: tags_dict_def)

lemma walk_name_fails:
  assumes "name fs pkg = Inl e"
  shows "fst (walk l fs tgs cs entry nv pkg) = []"
  using assms
  by (induction cs arbitrary: entry)
     (auto simp: Let_def split: list.splits option.splits)

lemma walk_name_raises:
  assumes "name fs pkg = Inl e" and "split CHR ''/'' nv = [rel, ver]"
    and "\<exists>c \<in> set cs. parents c = []"
    and "entry \<noteq> None \<or> hexsha (hd cs) = commit_hash pkg"
  shows "walk l fs tgs cs entry nv pkg = ([], Some e)"
  using assms(3,4)
proof (induction cs arbitrary: entry)
  case Nil
  then show ?case by simp
next
  case (Cons c cs)
  show ?case
  proof (cases "parents c = []")
    case True
    with assms(1,2) show ?thesis by simp
  next
    case False
    show ?thesis
    proof (cases "tgs (hexsha c) \<noteq> None \<and> hexsha c \<noteq> commit_hash pkg")
      case True
      with Cons.prems(2) obtain e0 where "entry = Some e0"
        by auto
      with True False assms(1,2) show ?thesis by simp
    next
      case nb: False
      with False
      have "\<not> ((tgs (hexsha c) \<noteq> None \<and> hexsha c \<noteq> commit_hash pkg) \<or> parents c = [])"
        by simp
      note step = walk_plain [where tgs = tgs and c = c and pkg = pkg, OF this]
      from Cons.prems(1) False have "\<exists>c \<in> set cs. parents c = []"
        by auto
      from Cons.IH [OF this] show ?thesis
        unfolding step by (simp del: walk.simps)
    qed
  qed
qed

text \<open>
  C5, as amended. Let exactly one tag \<open>T\<close> carry the prefix, on the commit \<open>t\<close>, and
  let its name with every occurrence of the prefix removed, which is what the tag
  dictionary keeps of it, be \<open>release/version\<close> with one \<open>/\<close>; let the object be newly
  built and the walk not start at \<open>t\<close>; let the walk be the commits
  \<open>after\<close> (at least one), then \<open>t\<close>, then \<open>before\<close>, then the root, where only the root
  has no parents and only \<open>t\<close> has its hash; let the release, the version (with no \<open>/\<close> in it) and the name of the
  package resolve. Then \<open>iter_changelog\<close> yields exactly two stanzas and ends without an
  exception: first the entry over \<open>after\<close> under the current release and version, then
  the entry over \<open>t\<close>, \<open>before\<close> and the root under the release and version of \<open>T\<close>.
\<close>

theorem one_tag_gives_two_stanzas:
  assumes one_tag: "filter (\<lambda>x. startswith (tag_name x) (tag_prefix pkg))
                      (tags (git_repository pkg)) = [T]"
    and on_t: "tag_commit T = hexsha t"
    and shape: "split CHR ''/'' (replace (tag_name T) (tag_prefix pkg) []) = [trel, tver]"
    and commits: "iter_commits (git_repository pkg) (commit_hash pkg) =
                    Some (after @ [t] @ before @ [root])"
    and m: "after \<noteq> []"
    and start: "commit_hash pkg \<noteq> hexsha t"
    and plain: "\<forall>c \<in> set (after @ before). parents c \<noteq> [] \<and> hexsha c \<noteq> hexsha t"
    and t_par: "parents t \<noteq> []"
    and root: "parents root = []"
    and fresh: "cached_release pkg = None"
    and rel: "release pkg = Inr (rel, pkg1)"
    and ver: "version l fs pkg1 = Inr (ver, pkg2)"
    and ver_ok: "CHR ''/'' \<notin> set ver"
    and nm: "name fs pkg2 = Inr (n, pkg3)"
  shows "iter_changelog l fs pkg =
     ([DEBIAN_CHANGELOG_TEMPLATE (template_dict n ver rel (entry_of l after)),
       DEBIAN_CHANGELOG_TEMPLATE
         (template_dict n tver trel (entry_of l (t # before @ [root])))],
      None)"
proof -
  let ?tagstr = "replace (tag_name T) (tag_prefix pkg) []"
  let ?tgs = "tags_dict pkg"
  have tgs: "?tgs = (\<lambda>h. if h = hexsha t then Some ?tagstr else None)"
    using tags_dict_single [OF one_tag] on_t by simp
  from release_keeps [OF rel] version_keeps [OF ver]
  have same: "git_repository pkg2 = git_repository pkg" "commit_hash pkg2 = commit_hash pkg"
    by auto
  from name_again [OF nm] have nm3: "name fs pkg3 = Inr (n, pkg3)"
    and h3: "commit_hash pkg3 = commit_hash pkg2"
    by simp_all
  have nv: "split CHR ''/'' (rel @ ''/'' @ ver) = [rel, ver]"
    using release_no_slash [OF fresh rel] ver_ok by (rule split_two)
  have plain_after: "\<forall>c \<in> set after.
      \<not> ((?tgs (hexsha c) \<noteq> None \<and> hexsha c \<noteq> commit_hash pkg2) \<or> parents c = [])"
    using plain by (simp add: tgs)
  have plain_before: "\<forall>c \<in> set before.
      \<not> ((?tgs (hexsha c) \<noteq> None \<and> hexsha c \<noteq> commit_hash pkg3) \<or> parents c = [])"
    using plain by (simp add: tgs)
  have grown: "(if before = [] then Some (add_commit t (new_entry l t))
       else Some (fold add_commit before
                    (case Some (add_commit t (new_entry l t)) of
                       None \<Rightarrow> new_entry l (hd before) | Some e \<Rightarrow> e))) =
      Some (entry_of l (t # before))"
    by (simp add: entry_of_def)
  have last_step: "walk l fs ?tgs [root] (Some (entry_of l (t # before))) ?tagstr pkg3 =
      ([template_dict n tver trel (entry_of l (t # before @ [root]))], None)"
    using walk_root_boundary [OF root shape nm3, of l ?tgs "[]" "Some (entry_of l (t # before))"]
      entry_of_snoc [of "t # before" l root]
    by simp
  have older: "walk l fs ?tgs (before @ [root]) (Some (add_commit t (new_entry l t)))
        ?tagstr pkg3 =
      ([template_dict n tver trel (entry_of l (t # before @ [root]))], None)"
    unfolding walk_plain_run [OF plain_before] grown by (rule last_step)
  have t_step: "walk l fs ?tgs (t # before @ [root]) (Some (entry_of l after))
        (rel @ ''/'' @ ver) pkg2 =
      ([template_dict n ver rel (entry_of l after),
        template_dict n tver trel (entry_of l (t # before @ [root]))], None)"
  proof -
    have "?tgs (hexsha t) = Some ?tagstr"
      by (simp add: tgs)
    moreover have "hexsha t \<noteq> commit_hash pkg2"
      using start same by simp
    ultimately show ?thesis
      using walk_tag_boundary [OF _ _ t_par nv nm, of ?tgs ?tagstr l "before @ [root]"
          "entry_of l after"] older
      by simp
  qed
  have newer: "walk l fs ?tgs (after @ t # before @ [root]) None (rel @ ''/'' @ ver) pkg2 =
      ([template_dict n ver rel (entry_of l after),
        template_dict n tver trel (entry_of l (t # before @ [root]))], None)"
    unfolding walk_plain_run [OF plain_after] using m t_step by (simp add: entry_of_def)
  show ?thesis
    using rel ver commits same newer by (simp add: iter_changelog_def)
qed

theorem one_tag_gives_two_stanzas_witness:
  "iter_changelog ex_lib ex_control
      (SlimPackage (ex_repo [ex_tag ''hybris-mobian/bookworm/1.2.3'']) (hexsha ex_head) None
         ''hybris-mobian/'' (Some ''bookworm'') ''feature/'' ''release'') =
     ([DEBIAN_CHANGELOG_TEMPLATE
         (template_dict ''demo-pkg'' ''0.0.0+git20200102030405.3c3c3c3.release'' ''bookworm''
            (entry_of ex_lib [ex_head])),
       DEBIAN_CHANGELOG_TEMPLATE
         (template_dict ''demo-pkg'' ''1.2.3'' ''bookworm''
            (entry_of ex_lib [ex_tagged, ex_root]))],
      None)"
proof -
  let ?T = "ex_tag ''hybris-mobian/bookworm/1.2.3''"
  let ?pkg = "SlimPackage (ex_repo [?T]) (hexsha ex_head) None
         ''hybris-mobian/'' (Some ''bookworm'') ''feature/'' ''release''"
  let ?ver = "''0.0.0+git20200102030405.3c3c3c3.release''"
  let ?pkg1 = "?pkg\<lparr>cached_release := Some ''bookworm''\<rparr>"
  let ?pkg2 = "?pkg1\<lparr>cached_version := Some ?ver\<rparr>"
  let ?pkg3 = "?pkg2\<lparr>cached_name := Some ''demo-pkg''\<rparr>"
  have one_tag: "filter (\<lambda>x. startswith (tag_name x) (tag_prefix ?pkg))
      (tags (git_repository ?pkg)) = [?T]"
    by (simp add: SlimPackage_def ex_repo_def ex_tag_def startswith_def)
  have on_t: "tag_commit ?T = hexsha ex_tagged"
    by (simp add: ex_tag_def)
  have shape: "split CHR ''/'' (replace (tag_name ?T) (tag_prefix ?pkg) []) =
      [''bookworm'', ''1.2.3'']"
    by code_simp
  have commits: "iter_commits (git_repository ?pkg) (commit_hash ?pkg) =
      Some ([ex_head] @ [ex_tagged] @ [] @ [ex_root])"
    by (simp add: SlimPackage_def ex_repo_def)
  have start: "commit_hash ?pkg \<noteq> hexsha ex_tagged"
    by (simp add: SlimPackage_def ex_head_def ex_tagged_def)
  have plain: "\<forall>c \<in> set ([ex_head] @ []). parents c \<noteq> [] \<and> hexsha c \<noteq> hexsha ex_tagged"
    by (simp add: ex_head_def ex_tagged_def)
  have t_par: "parents ex_tagged \<noteq> []"
    by (simp add: ex_tagged_def)
  have root: "parents ex_root = []"
    by (simp add: ex_root_def)
  have fresh: "cached_release ?pkg = None"
    by (simp add: SlimPackage_def)
  have r0: "hd (split CHR ''/'' (replace ''bookworm'' ''feature/'' [])) = ''bookworm''"
    by code_simp
  have rel: "release ?pkg = Inr (''bookworm'', ?pkg1)"
    by (simp add: release_def SlimPackage_def r0 Let_def)
  have c0: "commit_of (ex_repo [?T]) (hexsha ex_head) = Some ex_head"
    by code_simp
  have v0: "map_sum id fst (version ex_lib ex_control ?pkg) = Inr ?ver"
    by code_simp
  have ver: "version ex_lib ex_control ?pkg1 = Inr (?ver, ?pkg2)"
    using v0 c0
    by (simp add: version_def SlimPackage_def Let_def first_result_strategies
          get_version_from_changelog_def str_or_None_def split: option.splits)
  have ver_ok: "CHR ''/'' \<notin> set ?ver"
    by simp
  have n0: "map_sum id fst (name ex_control ?pkg) = Inr ''demo-pkg''"
    by code_simp
  have nm: "name ex_control ?pkg2 = Inr (''demo-pkg'', ?pkg3)"
    using n0
    by (auto simp: name_def SlimPackage_def Let_def split: option.splits)
  show ?thesis
    using one_tag_gives_two_stanzas [OF one_tag on_t shape commits _ start plain t_par root
        fresh rel ver ver_ok nm]
    by simp
qed

text \<open>
  C5 as stated fails: with the single tag \<open>hybris-mobian/1.0\<close> on the middle commit of
  the example, the walk yields one stanza and then raises \<open>ValueError\<close> at the root,
  where \<open>1.0\<close> does not split into a release and a version. The same happens with
  the single tag \<open>hybris-mobian/xhybris-mobian/y\<close>: after its prefix comes
  \<open>xhybris-mobian/y\<close>, a release and a version, but the tag dictionary holds \<open>xy\<close>,
  the name with every occurrence of the prefix removed.
\<close>

theorem one_segment_tag_stops_the_walk:
  "filter (\<lambda>x. startswith (tag_name x) ''hybris-mobian/'')
      (tags (ex_repo [ex_tag ''hybris-mobian/1.0''])) = [ex_tag ''hybris-mobian/1.0'']
   \<and> iter_commits (ex_repo [ex_tag ''hybris-mobian/1.0'']) (hexsha ex_head) =
       Some [ex_head, ex_tagged, ex_root]
   \<and> tag_commit (ex_tag ''hybris-mobian/1.0'') = hexsha ex_tagged
   \<and> iter_changelog ex_lib ex_control
      (SlimPackage (ex_repo [ex_tag ''hybris-mobian/1.0'']) (hexsha ex_head) None
         ''hybris-mobian/'' (Some ''bookworm'') ''feature/'' ''release'') =
     ([''demo-pkg (0.0.0+git20200102030405.3c3c3c3.release) bookworm; urgency=medium'' @
         [nl, nl] @ ''  * Add feature_x'' @ [nl, nl] @
         '' -- Alice <alice@example.org>  Thu, 02 Jan 2020 03:04:05 +0000'' @ [nl, nl]],
      Some ValueError)
   \<and> filter (\<lambda>x. startswith (tag_name x) ''hybris-mobian/'')
      (tags (ex_repo [ex_tag ''hybris-mobian/xhybris-mobian/y''])) =
       [ex_tag ''hybris-mobian/xhybris-mobian/y'']
   \<and> split CHR ''/'' (prefix_stripped ''hybris-mobian/'' ''hybris-mobian/xhybris-mobian/y'') =
       [''xhybris-mobian'', ''y'']
   \<and> tags_dict (SlimPackage (ex_repo [ex_tag ''hybris-mobian/xhybris-mobian/y''])
         (hexsha ex_head) None ''hybris-mobian/'' (Some ''bookworm'') ''feature/'' ''release'')
       (hexsha ex_tagged) = Some ''xy''
   \<and> iter_changelog ex_lib ex_control
      (SlimPackage (ex_repo [ex_tag ''hybris-mobian/xhybris-mobian/y'']) (hexsha ex_head) None
         ''hybris-mobian/'' (Some ''bookworm'') ''feature/'' ''release'') =
     ([''demo-pkg (0.0.0+git20200102030405.3c3c3c3.release) bookworm; urgency=medium'' @
         [nl, nl] @ ''  * Add feature_x'' @ [nl, nl] @
         '' -- Alice <alice@example.org>  Thu, 02 Jan 2020 03:04:05 +0000'' @ [nl, nl]],
      Some ValueError)"
  by code_simp

section \<open>What every stanza is made of\<close>

lemma walk_boundary_cases:
  assumes "d \<in> set (fst (walk l fs tgs (c # cs) entry nv pkg))"
    and "(tgs (hexsha c) \<noteq> None \<and> hexsha c \<noteq> commit_hash pkg) \<or> parents c = []"
  shows "\<exists>rel ver n pkg'.
           split CHR ''/'' nv = [rel, ver] \<and> name fs pkg = Inr (n, pkg') \<and>
           ((\<exists>e. Some e = (if parents c = []
                            then Some (add_commit c (case entry of None \<Rightarrow> new_entry l c
                                                      | Some e \<Rightarrow> e))
                            else entry)
                 \<and> d = template_dict n ver rel e)
            \<or> (\<exists>nv'. (nv' = nv \<or> tgs (hexsha c) = Some nv') \<and>
                   d \<in> set (fst (walk l fs tgs cs (Some (add_commit c (new_entry l c)))
                                   nv' pkg'))))"
proof -
  from assms obtain rel ver where s: "split CHR ''/'' nv = [rel, ver]"
    by (auto split: list.splits)
  from assms s obtain e where
    e: "Some e = (if parents c = []
                  then Some (add_commit c (case entry of None \<Rightarrow> new_entry l c | Some e \<Rightarrow> e))
                  else entry)"
    by (cases "parents c = []"; cases entry) auto
  from assms s e obtain n pkg' where n: "name fs pkg = Inr (n, pkg')"
    by (cases "name fs pkg"; cases "parents c = []"; cases entry) auto
  show ?thesis
  proof (cases "if parents c \<noteq> [] then tgs (hexsha c) else Some nv")
    case None
    with assms s e n have "d = template_dict n ver rel e"
      by (cases "parents c = []"; cases entry) (auto simp: Let_def)
    with s e n show ?thesis by blast
  next
    case (Some nv')
    then have nv': "nv' = nv \<or> tgs (hexsha c) = Some nv'"
      by (auto split: if_splits)
    obtain ds err where
      w: "walk l fs tgs cs (Some (add_commit c (new_entry l c))) nv' pkg' = (ds, err)"
      by (cases "walk l fs tgs cs (Some (add_commit c (new_entry l c))) nv' pkg'")
    with assms s e n Some have "d = template_dict n ver rel e \<or> d \<in> set ds"
      by (cases "parents c = []"; cases entry) (auto simp: Let_def split: if_splits)
    then show ?thesis
    proof
      assume "d = template_dict n ver rel e"
      with s e n show ?thesis by blast
    next
      assume "d \<in> set ds"
      with w have "d \<in> set (fst (walk l fs tgs cs (Some (add_commit c (new_entry l c)))
          nv' pkg'))"
        by simp
      with s n nv' show ?thesis by blast
    qed
  qed
qed

lemma name_value_again:
  assumes "name fs pkg = Inr (n, pkg')"
  shows "map_sum id fst (name fs pkg') = Inr n"
  using name_again(1) [OF assms] by simp

lemma walk_rendered:
  assumes "entry = None \<or> (\<exists>seg. seg \<noteq> [] \<and> suffix seg pre \<and> entry = Some (entry_of l seg))"
    and "d \<in> set (fst (walk l fs tgs cs entry nv pkg))"
  shows "\<exists>seg n nv' rel ver.
           seg \<noteq> [] \<and> sublist seg (pre @ cs) \<and> (nv' = nv \<or> nv' \<in> ran tgs) \<and>
           split CHR ''/'' nv' = [rel, ver] \<and> map_sum id fst (name fs pkg) = Inr n \<and>
           d = template_dict n ver rel (entry_of l seg)"
  using assms
proof (induction cs arbitrary: entry pre nv pkg)
  case Nil
  then show ?case by simp
next
  case (Cons c cs)
  let ?grown = "add_commit c (case entry of None \<Rightarrow> new_entry l c | Some e \<Rightarrow> e)"
  from Cons.prems(1) obtain seg' where seg':
    "seg' \<noteq> []" "suffix seg' (pre @ [c])" "?grown = entry_of l seg'"
  proof
    assume "entry = None"
    then have "[c] \<noteq> []" "suffix [c] (pre @ [c])" "?grown = entry_of l [c]"
      by (simp_all add: entry_of_single)
    then show ?thesis by (rule that)
  next
    assume "\<exists>seg. seg \<noteq> [] \<and> suffix seg pre \<and> entry = Some (entry_of l seg)"
    then obtain seg where "seg \<noteq> []" "suffix seg pre" "entry = Some (entry_of l seg)"
      by blast
    then have "seg @ [c] \<noteq> []" "suffix (seg @ [c]) (pre @ [c])"
      "?grown = entry_of l (seg @ [c])"
      by (simp_all add: entry_of_snoc)
    then show ?thesis by (rule that)
  qed
  have fresh: "Some (add_commit c (new_entry l c)) = None \<or>
      (\<exists>seg. seg \<noteq> [] \<and> suffix seg (pre @ [c]) \<and>
         Some (add_commit c (new_entry l c)) = Some (entry_of l seg))"
    by (rule disjI2, rule exI [of _ "[c]"]) (simp add: entry_of_single)
  have grown: "Some ?grown = None \<or>
      (\<exists>seg. seg \<noteq> [] \<and> suffix seg (pre @ [c]) \<and> Some ?grown = Some (entry_of l seg))"
    using seg' by blast
  show ?case
  proof (cases "(tgs (hexsha c) \<noteq> None \<and> hexsha c \<noteq> commit_hash pkg) \<or> parents c = []")
    case False
    from Cons.prems(2) have "d \<in> set (fst (walk l fs tgs cs (Some ?grown) nv pkg))"
      unfolding walk_plain [where tgs = tgs and c = c and pkg = pkg, OF False] .
    from Cons.IH [OF grown this] show ?thesis by simp
  next
    case True
    from walk_boundary_cases [OF Cons.prems(2) True]
    obtain rel ver n pkg' where s: "split CHR ''/'' nv = [rel, ver]"
      and n: "name fs pkg = Inr (n, pkg')"
      and alt: "(\<exists>e. Some e = (if parents c = [] then Some ?grown else entry)
                    \<and> d = template_dict n ver rel e)
            \<or> (\<exists>nv'. (nv' = nv \<or> tgs (hexsha c) = Some nv') \<and>
                   d \<in> set (fst (walk l fs tgs cs (Some (add_commit c (new_entry l c)))
                                   nv' pkg')))"
      by blast
    from n have nval: "map_sum id fst (name fs pkg) = Inr n"
      by simp
    from alt show ?thesis
    proof
      assume "\<exists>e. Some e = (if parents c = [] then Some ?grown else entry)
                    \<and> d = template_dict n ver rel e"
      then obtain e where e: "Some e = (if parents c = [] then Some ?grown else entry)"
        and d: "d = template_dict n ver rel e"
        by blast
      have "\<exists>seg. seg \<noteq> [] \<and> sublist seg (pre @ c # cs) \<and> e = entry_of l seg"
      proof (cases "parents c = []")
        case True
        with e have "e = entry_of l seg'"
          by (simp add: seg')
        moreover from seg'(2) have "sublist seg' ((pre @ [c]) @ cs)"
          by (rule suffix_sublist_append)
        then have "sublist seg' (pre @ c # cs)"
          by simp
        ultimately show ?thesis using seg'(1) by blast
      next
        case False
        with e have "entry = Some e" by simp
        with Cons.prems(1) obtain seg where seg: "seg \<noteq> []" "suffix seg pre"
          "e = entry_of l seg"
          by auto
        from seg(2) have "sublist seg (pre @ c # cs)"
          by (rule suffix_sublist_append)
        with seg show ?thesis by blast
      qed
      with d s nval show ?thesis by blast
    next
      assume "\<exists>nv'. (nv' = nv \<or> tgs (hexsha c) = Some nv') \<and>
                   d \<in> set (fst (walk l fs tgs cs (Some (add_commit c (new_entry l c)))
                                   nv' pkg'))"
      then obtain nv' where nv': "nv' = nv \<or> tgs (hexsha c) = Some nv'"
        and later: "d \<in> set (fst (walk l fs tgs cs (Some (add_commit c (new_entry l c)))
                                   nv' pkg'))"
        by blast
      from Cons.IH [OF fresh later]
      obtain seg m nv'' rel' ver' where r: "seg \<noteq> []" "sublist seg ((pre @ [c]) @ cs)"
        "nv'' = nv' \<or> nv'' \<in> ran tgs" "split CHR ''/'' nv'' = [rel', ver']"
        "map_sum id fst (name fs pkg') = Inr m" "d = template_dict m ver' rel' (entry_of l seg)"
        by blast
      from r(5) name_value_again [OF n] have "m = n"
        by simp
      with r(6) have d: "d = template_dict n ver' rel' (entry_of l seg)"
        by simp
      from r(3) nv' have "nv'' = nv \<or> nv'' \<in> ran tgs"
        by (auto simp: ran_def)
      moreover from r(2) have "sublist seg (pre @ c # cs)"
        by simp
      ultimately show ?thesis
        using r(1,4) nval d by blast
    qed
  qed
qed

lemma name_ignores_caches:
  "map_sum id fst (name fs (pkg\<lparr>cached_release := x\<rparr>)) = map_sum id fst (name fs pkg)"
  "map_sum id fst (name fs (pkg\<lparr>cached_version := y\<rparr>)) = map_sum id fst (name fs pkg)"
  by (simp_all add: name_def Let_def split: option.splits)

lemma fold_add_commit_fields:
  "author (fold add_commit cs e) = author e"
  "mail (fold add_commit cs e) = mail e"
  "date (fold add_commit cs e) = date e"
  by (induction cs arbitrary: e) (simp_all add: add_commit_def)

lemma entry_of_fields:
  "author (entry_of l seg) = author_name (hd seg)"
  "mail (entry_of l seg) = author_email (hd seg)"
  "date (entry_of l seg) =
     format_datetime l (committed_date (hd seg)) (committer_tz_offset (hd seg))"
  by (simp_all add: entry_of_def fold_add_commit_fields new_entry_def)

lemma pairs_from_keys:
  assumes "\<forall>(a, ms) \<in> set xs. ms = f a"
  shows "xs = map (\<lambda>a. (a, f a)) (map fst xs)"
  using assms by (induction xs) auto

lemma contents_entry_of:
  "contents (entry_of l seg) =
     map (\<lambda>a. (a, rev (map first_line (filter (\<lambda>c. author_name c = a) seg))))
         (first_seen (map author_name seg))"
proof -
  have "\<forall>(a, ms) \<in> set (contents (entry_of l seg)).
      ms = rev (map first_line (filter (\<lambda>c. author_name c = a) seg))"
    using messages_entry_of by blast
  from pairs_from_keys [OF this] show ?thesis
    by (simp only: keys_entry_of)
qed

lemma star_prefix:
  "(@) ''  * '' = (\<lambda>m. CHR '' '' # CHR '' '' # CHR ''*'' # CHR '' '' # m)"
  by (rule ext) simp

lemma render_content_pairs:
  "render_content (map (\<lambda>a. (a, f a)) ks) =
     (case ks of
        [] \<Rightarrow> []
      | [a] \<Rightarrow> join [nl] (map (\<lambda>m. ''  * '' @ m) (f a))
      | a # b # others \<Rightarrow>
          join [nl, nl]
            (map (\<lambda>x. ''  [ '' @ x @ '' ]'' @ [nl] @ join [nl] (map (\<lambda>m. ''  * '' @ m) (f x)))
                 (a # b # others)))"
proof (cases ks)
  case Nil
  then show ?thesis by (simp add: render_content_def)
next
  case (Cons a ks')
  show ?thesis
  proof (cases ks')
    case Nil
    with Cons show ?thesis
      by (simp add: render_content_def render_messages_def star_prefix)
  next
    case (Cons b others)
    show ?thesis
      unfolding \<open>ks = a # ks'\<close> Cons
      by (simp add: render_content_def render_messages_def Let_def star_prefix comp_def)
  qed
qed

lemma render_content_entry_of: "render_content (contents (entry_of l seg)) = stanza_body seg"
  unfolding contents_entry_of render_content_pairs
  by (simp add: stanza_body_def author_block_def star_prefix split: list.splits)

lemma stanza_rendered:
  "DEBIAN_CHANGELOG_TEMPLATE (template_dict n ver rel (entry_of l seg)) =
     n @ '' ('' @ sanitize_tag_version ver @ '') '' @ rel @ ''; urgency=medium'' @ [nl, nl] @
     stanza_body seg @ [nl, nl] @
     '' -- '' @ author_name (hd seg) @ '' <'' @ author_email (hd seg) @ ''>  '' @
     format_datetime l (committed_date (hd seg)) (committer_tz_offset (hd seg)) @ [nl, nl]"
  by (simp add: DEBIAN_CHANGELOG_TEMPLATE_def template_dict_def entry_of_fields
        render_content_entry_of)

lemma iter_changelog_rendered:
  assumes "s \<in> set (fst (iter_changelog l fs pkg))"
  shows "\<exists>rel0 p1 ver0 p2 cs seg n nv rel ver.
           release pkg = Inr (rel0, p1) \<and> version l fs p1 = Inr (ver0, p2) \<and>
           iter_commits (git_repository pkg) (commit_hash pkg) = Some cs \<and>
           seg \<noteq> [] \<and> sublist seg cs \<and>
           (nv = rel0 @ ''/'' @ ver0 \<or> nv \<in> ran (tags_dict pkg)) \<and>
           split CHR ''/'' nv = [rel, ver] \<and>
           map_sum id fst (name fs pkg) = Inr n \<and>
           s = DEBIAN_CHANGELOG_TEMPLATE (template_dict n ver rel (entry_of l seg))"
proof -
  from assms obtain rel0 p1 ver0 p2 cs ds err where
    r: "release pkg = Inr (rel0, p1)" and v: "version l fs p1 = Inr (ver0, p2)"
    and c: "iter_commits (git_repository p2) (commit_hash p2) = Some cs"
    and w: "walk l fs (tags_dict pkg) cs None (rel0 @ ''/'' @ ver0) p2 = (ds, err)"
    and s: "s \<in> set (map DEBIAN_CHANGELOG_TEMPLATE ds)"
    by (auto simp: iter_changelog_def Let_def split: sum.splits option.splits prod.splits)
  from s obtain d where d: "d \<in> set ds" "s = DEBIAN_CHANGELOG_TEMPLATE d"
    by auto
  from d(1) w
  have dmem: "d \<in> set (fst (walk l fs (tags_dict pkg) cs None (rel0 @ ''/'' @ ver0) p2))"
    by simp
  have "\<exists>seg n nv rel ver. seg \<noteq> [] \<and> sublist seg cs \<and>
      (nv = rel0 @ ''/'' @ ver0 \<or> nv \<in> ran (tags_dict pkg)) \<and>
      split CHR ''/'' nv = [rel, ver] \<and> map_sum id fst (name fs p2) = Inr n \<and>
      d = template_dict n ver rel (entry_of l seg)"
    using walk_rendered [where pre = "[]" and entry = None, OF _ dmem] by simp
  then obtain seg n nv rel ver where f: "seg \<noteq> []" "sublist seg cs"
    "nv = rel0 @ ''/'' @ ver0 \<or> nv \<in> ran (tags_dict pkg)"
    "split CHR ''/'' nv = [rel, ver]" "map_sum id fst (name fs p2) = Inr n"
    "d = template_dict n ver rel (entry_of l seg)"
    by blast
  from release_keeps [OF r] version_keeps [OF v] obtain x y where
    p2: "p2 = pkg\<lparr>cached_release := x, cached_version := y\<rparr>"
    by auto
  from c have c': "iter_commits (git_repository pkg) (commit_hash pkg) = Some cs"
    by (simp add: p2)
  from f(5) have n: "map_sum id fst (name fs pkg) = Inr n"
    by (simp add: p2 name_ignores_caches)
  from r v c' f(1-4) n f(6) d(2) show ?thesis
    by blast
qed

lemma single_author:
  assumes "first_seen (map author_name seg) = [a]"
  shows "filter (\<lambda>c. author_name c = a) seg = seg"
proof -
  from assms have "set (map author_name seg) = {a}"
    by (metis set_first_seen list.simps(15) empty_set)
  then show ?thesis
    by (auto intro: filter_True)
qed

section \<open>The body of a stanza\<close>

text \<open>
  C7. Every stanza \<open>iter_changelog\<close> yields is the header line, a blank line, the body,
  a blank line and the signature line, where the body is \<open>stanza_body\<close> of a stretch of
  consecutive commits of the walk and the signature is taken from the first commit of
  the stretch. The body the code renders from the entry's ordered dictionary is that
  \<open>stanza_body\<close>: the authors stand in the order in which the walk first met them;
  with one author the body is that author's messages alone, each as a line
  \<open>  * message\<close>; with more than one author, each author's block is a header line
  \<open>  [ author ]\<close> followed by the messages, and the blocks are separated by a blank
  line.
\<close>

theorem stanza_body_rendering:
  "(\<forall>s \<in> set (fst (iter_changelog l fs pkg)).
      \<exists>cs seg n rel ver.
        iter_commits (git_repository pkg) (commit_hash pkg) = Some cs \<and>
        seg \<noteq> [] \<and> sublist seg cs \<and>
        s = n @ '' ('' @ sanitize_tag_version ver @ '') '' @ rel @ ''; urgency=medium'' @
            [nl, nl] @ stanza_body seg @ [nl, nl] @
            '' -- '' @ author_name (hd seg) @ '' <'' @ author_email (hd seg) @ ''>  '' @
            format_datetime l (committed_date (hd seg)) (committer_tz_offset (hd seg)) @
            [nl, nl])
   \<and> render_content (contents (entry_of l seg)) = stanza_body seg
   \<and> map fst (contents (entry_of l seg)) = first_seen (map author_name seg)
   \<and> (first_seen (map author_name seg) = [a] \<longrightarrow>
        stanza_body seg = join [nl] (map (\<lambda>m. ''  * '' @ m) (rev (map first_line seg))))
   \<and> (1 < length (first_seen (map author_name seg)) \<longrightarrow>
        stanza_body seg =
          join [nl, nl]
            (map (\<lambda>x. ''  [ '' @ x @ '' ]'' @ [nl] @
                       join [nl] (map (\<lambda>m. ''  * '' @ m)
                         (rev (map first_line (filter (\<lambda>c. author_name c = x) seg)))))
                 (first_seen (map author_name seg))))"
proof (intro conjI ballI impI)
  fix s
  assume "s \<in> set (fst (iter_changelog l fs pkg))"
  from iter_changelog_rendered [OF this]
  obtain cs seg n rel ver where
    "iter_commits (git_repository pkg) (commit_hash pkg) = Some cs" "seg \<noteq> []"
    "sublist seg cs"
    "s = DEBIAN_CHANGELOG_TEMPLATE (template_dict n ver rel (entry_of l seg))"
    by blast
  then show "\<exists>cs seg n rel ver.
        iter_commits (git_repository pkg) (commit_hash pkg) = Some cs \<and>
        seg \<noteq> [] \<and> sublist seg cs \<and>
        s = n @ '' ('' @ sanitize_tag_version ver @ '') '' @ rel @ ''; urgency=medium'' @
            [nl, nl] @ stanza_body seg @ [nl, nl] @
            '' -- '' @ author_name (hd seg) @ '' <'' @ author_email (hd seg) @ ''>  '' @
            format_datetime l (committed_date (hd seg)) (committer_tz_offset (hd seg)) @
            [nl, nl]"
    unfolding stanza_rendered by blast
next
  show "render_content (contents (entry_of l seg)) = stanza_body seg"
    by (rule render_content_entry_of)
next
  show "map fst (contents (entry_of l seg)) = first_seen (map author_name seg)"
    by (rule keys_entry_of)
next
  assume one: "first_seen (map author_name seg) = [a]"
  then show "stanza_body seg = join [nl] (map (\<lambda>m. ''  * '' @ m) (rev (map first_line seg)))"
    by (simp add: stanza_body_def author_block_def single_author [OF one])
next
  assume "1 < length (first_seen (map author_name seg))"
  then obtain x y others where "first_seen (map author_name seg) = x # y # others"
    by (cases "first_seen (map author_name seg)"; cases "tl (first_seen (map author_name seg))")
       auto
  then show "stanza_body seg =
          join [nl, nl]
            (map (\<lambda>x. ''  [ '' @ x @ '' ]'' @ [nl] @
                       join [nl] (map (\<lambda>m. ''  * '' @ m)
                         (rev (map first_line (filter (\<lambda>c. author_name c = x) seg)))))
                 (first_seen (map author_name seg)))"
    by (simp add: stanza_body_def author_block_def)
qed

theorem stanza_body_rendering_witness:
  "fst (iter_changelog ex_lib ex_control
      (SlimPackage (ex_repo [ex_tag ''hybris-mobian/bookworm/1.2.3'']) (hexsha ex_head) None
         ''hybris-mobian/'' (Some ''bookworm'') ''feature/'' ''release'')) =
     [''demo-pkg (0.0.0+git20200102030405.3c3c3c3.release) bookworm; urgency=medium'' @
        [nl, nl] @ ''  * Add feature_x'' @ [nl, nl] @
        '' -- Alice <alice@example.org>  Thu, 02 Jan 2020 03:04:05 +0000'' @ [nl, nl],
      ''demo-pkg (1.2.3) bookworm; urgency=medium'' @ [nl, nl] @
        ''  [ Bob ]'' @ [nl] @ ''  * Prepare the release'' @ [nl, nl] @
        ''  [ Alice ]'' @ [nl] @ ''  * Initial import'' @ [nl, nl] @
        '' -- Bob <bob@example.org>  Thu, 02 Jan 2020 03:04:05 +0000'' @ [nl, nl]]
   \<and> render_content (contents (entry_of ex_lib [ex_tagged, ex_root])) =
       ''  [ Bob ]'' @ [nl] @ ''  * Prepare the release'' @ [nl, nl] @
       ''  [ Alice ]'' @ [nl] @ ''  * Initial import''
   \<and> stanza_body [ex_head] = ''  * Add feature_x''
   \<and> (\<exists>cs seg n rel ver.
        iter_commits (ex_repo [ex_tag ''hybris-mobian/bookworm/1.2.3'']) (hexsha ex_head)
          = Some cs \<and>
        seg \<noteq> [] \<and> sublist seg cs \<and>
        ''demo-pkg (1.2.3) bookworm; urgency=medium'' @ [nl, nl] @
        ''  [ Bob ]'' @ [nl] @ ''  * Prepare the release'' @ [nl, nl] @
        ''  [ Alice ]'' @ [nl] @ ''  * Initial import'' @ [nl, nl] @
        '' -- Bob <bob@example.org>  Thu, 02 Jan 2020 03:04:05 +0000'' @ [nl, nl] =
          n @ '' ('' @ sanitize_tag_version ver @ '') '' @ rel @ ''; urgency=medium'' @
            [nl, nl] @ stanza_body seg @ [nl, nl] @
            '' -- '' @ author_name (hd seg) @ '' <'' @ author_email (hd seg) @ ''>  '' @
            format_datetime ex_lib (committed_date (hd seg)) (committer_tz_offset (hd seg)) @
            [nl, nl])"
proof -
  let ?pkg = "SlimPackage (ex_repo [ex_tag ''hybris-mobian/bookworm/1.2.3'']) (hexsha ex_head)
         None ''hybris-mobian/'' (Some ''bookworm'') ''feature/'' ''release''"
  let ?first = "''demo-pkg (0.0.0+git20200102030405.3c3c3c3.release) bookworm; urgency=medium'' @
        [nl, nl] @ ''  * Add feature_x'' @ [nl, nl] @
        '' -- Alice <alice@example.org>  Thu, 02 Jan 2020 03:04:05 +0000'' @ [nl, nl]"
  let ?second = "''demo-pkg (1.2.3) bookworm; urgency=medium'' @ [nl, nl] @
        ''  [ Bob ]'' @ [nl] @ ''  * Prepare the release'' @ [nl, nl] @
        ''  [ Alice ]'' @ [nl] @ ''  * Initial import'' @ [nl, nl] @
        '' -- Bob <bob@example.org>  Thu, 02 Jan 2020 03:04:05 +0000'' @ [nl, nl]"
  note inst = stanza_body_rendering [of ex_lib ex_control ?pkg]
  have run: "fst (iter_changelog ex_lib ex_control ?pkg) = [?first, ?second]"
    by code_simp
  then have mem: "?second \<in> set (fst (iter_changelog ex_lib ex_control ?pkg))"
    by (simp only: list.set insert_iff simp_thms)
  have repo: "git_repository ?pkg = ex_repo [ex_tag ''hybris-mobian/bookworm/1.2.3'']"
    "commit_hash ?pkg = hexsha ex_head"
    by (simp_all add: SlimPackage_def)
  have 4: "\<exists>cs seg n rel ver.
        iter_commits (ex_repo [ex_tag ''hybris-mobian/bookworm/1.2.3'']) (hexsha ex_head)
          = Some cs \<and>
        seg \<noteq> [] \<and> sublist seg cs \<and>
        ?second =
          n @ '' ('' @ sanitize_tag_version ver @ '') '' @ rel @ ''; urgency=medium'' @
            [nl, nl] @ stanza_body seg @ [nl, nl] @
            '' -- '' @ author_name (hd seg) @ '' <'' @ author_email (hd seg) @ ''>  '' @
            format_datetime ex_lib (committed_date (hd seg)) (committer_tz_offset (hd seg)) @
            [nl, nl]"
    using inst [THEN conjunct1, THEN bspec, OF mem] unfolding repo .
  have two: "1 < length (first_seen (map author_name [ex_tagged, ex_root]))"
    by code_simp
  have blocks: "join [nl, nl]
            (map (\<lambda>x. ''  [ '' @ x @ '' ]'' @ [nl] @
                       join [nl] (map (\<lambda>m. ''  * '' @ m)
                         (rev (map first_line
                           (filter (\<lambda>c. author_name c = x) [ex_tagged, ex_root])))))
                 (first_seen (map author_name [ex_tagged, ex_root]))) =
       ''  [ Bob ]'' @ [nl] @ ''  * Prepare the release'' @ [nl, nl] @
       ''  [ Alice ]'' @ [nl] @ ''  * Initial import''"
    by code_simp
  have b: "stanza_body [ex_tagged, ex_root] =
       ''  [ Bob ]'' @ [nl] @ ''  * Prepare the release'' @ [nl, nl] @
       ''  [ Alice ]'' @ [nl] @ ''  * Initial import''"
    using stanza_body_rendering [of ex_lib ex_control ?pkg "[ex_tagged, ex_root]",
      THEN conjunct2, THEN conjunct2, THEN conjunct2, THEN conjunct2, THEN mp, OF two] blocks
    by (rule trans)
  have 2: "render_content (contents (entry_of ex_lib [ex_tagged, ex_root])) =
       ''  [ Bob ]'' @ [nl] @ ''  * Prepare the release'' @ [nl, nl] @
       ''  [ Alice ]'' @ [nl] @ ''  * Initial import''"
    using stanza_body_rendering [of ex_lib ex_control ?pkg "[ex_tagged, ex_root]",
      THEN conjunct2, THEN conjunct1] b
    by (rule trans)
  have one: "first_seen (map author_name [ex_head]) = [''Alice'']"
    by code_simp
  have lines: "join [nl] (map (\<lambda>m. ''  * '' @ m) (rev (map first_line [ex_head]))) =
      ''  * Add feature_x''"
    by code_simp
  have 3: "stanza_body [ex_head] = ''  * Add feature_x''"
    using stanza_body_rendering [of ex_lib ex_control ?pkg "[ex_head]" "''Alice''",
      THEN conjunct2, THEN conjunct2, THEN conjunct2, THEN conjunct1, THEN mp, OF one] lines
    by (rule trans)
  from run 2 3 4 show ?thesis
    by (intro conjI)
qed

section \<open>Sanitized versions\<close>

text \<open>
  C4, as amended. \<open>sanitize_tag_version\<close> puts \<open>~\<close> for every \<open>_\<close> and \<open>:\<close> for
  every \<open>%\<close>. Every stanza that \<open>iter_changelog\<close> yields starts with the header line
  whose version is \<open>sanitize_tag_version\<close> of the version part of the walk's tracked
  \<open>release/version\<close> string (the object's release and version at the start, a tag's
  name from the tag dictionary afterwards), so the version in the header holds neither
  \<open>_\<close> nor \<open>%\<close>. The program prints one line on standard output, and it carries the
  value of the property \<open>version\<close> of the package it has built, as it is.
\<close>

theorem stanza_versions_are_sanitized:
  "sanitize_tag_version v =
     map (\<lambda>c. if c = CHR ''_'' then CHR ''~'' else if c = CHR ''%'' then CHR '':'' else c) v
   \<and> (\<forall>s \<in> set (fst (iter_changelog l fs pkg)).
         \<exists>rel0 p1 ver0 p2 n nv rel ver rest.
           release pkg = Inr (rel0, p1) \<and> version l fs p1 = Inr (ver0, p2) \<and>
           (nv = rel0 @ ''/'' @ ver0 \<or> nv \<in> ran (tags_dict pkg)) \<and>
           split CHR ''/'' nv = [rel, ver] \<and>
           s = n @ '' ('' @ sanitize_tag_version ver @ '') '' @ rel @ ''; urgency=medium'' @ rest \<and>
           CHR ''_'' \<notin> set (sanitize_tag_version ver) \<and>
           CHR ''%'' \<notin> set (sanitize_tag_version ver))
   \<and> (\<forall>p0 printed p1.
         make_package w a = Inr p0 \<and> version l (w_files w) p0 = Inr (printed, p1) \<longrightarrow>
         stdout (main l w a) = [''I: Resulting version is '' @ printed])"
proof (intro conjI ballI allI impI)
  show "sanitize_tag_version v =
     map (\<lambda>c. if c = CHR ''_'' then CHR ''~'' else if c = CHR ''%'' then CHR '':'' else c) v"
    by (rule sanitize_tag_version_map)
next
  fix s
  assume "s \<in> set (fst (iter_changelog l fs pkg))"
  from iter_changelog_rendered [OF this]
  obtain rel0 p1 ver0 p2 n nv rel ver seg where
    r: "release pkg = Inr (rel0, p1)" and v: "version l fs p1 = Inr (ver0, p2)"
    and nv: "nv = rel0 @ ''/'' @ ver0 \<or> nv \<in> ran (tags_dict pkg)"
    and sp: "split CHR ''/'' nv = [rel, ver]"
    and s: "s = DEBIAN_CHANGELOG_TEMPLATE (template_dict n ver rel (entry_of l seg))"
    by blast
  let ?rest = "[nl, nl] @ stanza_body seg @ [nl, nl] @
        '' -- '' @ author_name (hd seg) @ '' <'' @ author_email (hd seg) @ ''>  '' @
        format_datetime l (committed_date (hd seg)) (committer_tz_offset (hd seg)) @ [nl, nl]"
  have s': "s = n @ '' ('' @ sanitize_tag_version ver @ '') '' @ rel @ ''; urgency=medium'' @ ?rest"
    unfolding s stanza_rendered by simp
  have no: "CHR ''_'' \<notin> set (sanitize_tag_version ver)"
    "CHR ''%'' \<notin> set (sanitize_tag_version ver)"
    by (auto simp: sanitize_tag_version_map)
  from r v nv sp s' no
  show "\<exists>rel0 p1 ver0 p2 n nv rel ver rest.
           release pkg = Inr (rel0, p1) \<and> version l fs p1 = Inr (ver0, p2) \<and>
           (nv = rel0 @ ''/'' @ ver0 \<or> nv \<in> ran (tags_dict pkg)) \<and>
           split CHR ''/'' nv = [rel, ver] \<and>
           s = n @ '' ('' @ sanitize_tag_version ver @ '') '' @ rel @ ''; urgency=medium'' @ rest \<and>
           CHR ''_'' \<notin> set (sanitize_tag_version ver) \<and>
           CHR ''%'' \<notin> set (sanitize_tag_version ver)"
    by blast
next
  fix p0 printed p1
  assume "make_package w a = Inr p0 \<and> version l (w_files w) p0 = Inr (printed, p1)"
  then show "stdout (main l w a) = [''I: Resulting version is '' @ printed]"
    by (simp add: main_def Let_def split: prod.splits)
qed

theorem stanza_versions_are_sanitized_witness:
  "fst (iter_changelog ex_lib ex_control
      (SlimPackage (ex_repo [ex_tag ''hybris-mobian/bookworm/1.2_rc1'']) (hexsha ex_head)
         (Some ''hybris-mobian/bookworm/1.3_rc1%2'') ''hybris-mobian/'' None ''feature/''
         ''release'')) =
     [''demo-pkg (1.3~rc1:2+git20200102030405.3c3c3c3.release) bookworm; urgency=medium'' @
        [nl, nl] @ ''  * Add feature_x'' @ [nl, nl] @
        '' -- Alice <alice@example.org>  Thu, 02 Jan 2020 03:04:05 +0000'' @ [nl, nl],
      ''demo-pkg (1.2~rc1) bookworm; urgency=medium'' @ [nl, nl] @
        ''  [ Bob ]'' @ [nl] @ ''  * Prepare the release'' @ [nl, nl] @
        ''  [ Alice ]'' @ [nl] @ ''  * Initial import'' @ [nl, nl] @
        '' -- Bob <bob@example.org>  Thu, 02 Jan 2020 03:04:05 +0000'' @ [nl, nl]]
   \<and> (\<exists>n nv rel ver rest.
         (nv = ''bookworm/1.3_rc1%2+git20200102030405.3c3c3c3.release'' \<or>
          nv = ''bookworm/1.2_rc1'') \<and>
         split CHR ''/'' nv = [rel, ver] \<and>
         ''demo-pkg (1.2~rc1) bookworm; urgency=medium'' @ [nl, nl] @
           ''  [ Bob ]'' @ [nl] @ ''  * Prepare the release'' @ [nl, nl] @
           ''  [ Alice ]'' @ [nl] @ ''  * Initial import'' @ [nl, nl] @
           '' -- Bob <bob@example.org>  Thu, 02 Jan 2020 03:04:05 +0000'' @ [nl, nl]
           = n @ '' ('' @ sanitize_tag_version ver @ '') '' @ rel @ ''; urgency=medium'' @ rest
         \<and> CHR ''_'' \<notin> set (sanitize_tag_version ver)
         \<and> CHR ''%'' \<notin> set (sanitize_tag_version ver))
   \<and> sanitize_tag_version ''1.3_rc1%2+git20200102030405.3c3c3c3.release'' =
       ''1.3~rc1:2+git20200102030405.3c3c3c3.release''
   \<and> stdout (main ex_lib (ex_world [ex_tag ''hybris-mobian/bookworm/1.2_rc1''] ex_control)
        (ex_args (Some ''hybris-mobian/bookworm/1.3_rc1%2''))) =
       [''I: Resulting version is 1.3_rc1%2+git20200102030405.3c3c3c3.release'']"
proof -
  let ?ts = "[ex_tag ''hybris-mobian/bookworm/1.2_rc1'']"
  let ?pkg = "SlimPackage (ex_repo ?ts) (hexsha ex_head)
         (Some ''hybris-mobian/bookworm/1.3_rc1%2'') ''hybris-mobian/'' None ''feature/''
         ''release''"
  let ?w = "ex_world ?ts ex_control"
  let ?a = "ex_args (Some ''hybris-mobian/bookworm/1.3_rc1%2'')"
  let ?second = "''demo-pkg (1.2~rc1) bookworm; urgency=medium'' @ [nl, nl] @
        ''  [ Bob ]'' @ [nl] @ ''  * Prepare the release'' @ [nl, nl] @
        ''  [ Alice ]'' @ [nl] @ ''  * Initial import'' @ [nl, nl] @
        '' -- Bob <bob@example.org>  Thu, 02 Jan 2020 03:04:05 +0000'' @ [nl, nl]"
  note inst = stanza_versions_are_sanitized [of _ ex_lib ex_control ?pkg ?w ?a]
  have san: "sanitize_tag_version ''1.3_rc1%2+git20200102030405.3c3c3c3.release'' =
       ''1.3~rc1:2+git20200102030405.3c3c3c3.release''"
    using stanza_versions_are_sanitized
      [of "''1.3_rc1%2+git20200102030405.3c3c3c3.release''" ex_lib ex_control ?pkg ?w ?a,
       THEN conjunct1]
    by simp
  have run: "fst (iter_changelog ex_lib ex_control ?pkg) =
     [''demo-pkg (1.3~rc1:2+git20200102030405.3c3c3c3.release) bookworm; urgency=medium'' @
        [nl, nl] @ ''  * Add feature_x'' @ [nl, nl] @
        '' -- Alice <alice@example.org>  Thu, 02 Jan 2020 03:04:05 +0000'' @ [nl, nl],
      ?second]"
    by code_simp
  then have mem: "?second \<in> set (fst (iter_changelog ex_lib ex_control ?pkg))"
    by (simp only: list.set insert_iff simp_thms)
  from inst [THEN conjunct2, THEN conjunct1, THEN bspec, OF mem]
  obtain rel0 p1 ver0 p2 n nv rel ver rest where
    r: "release ?pkg = Inr (rel0, p1)" and v: "version ex_lib ex_control p1 = Inr (ver0, p2)"
    and nv: "nv = rel0 @ ''/'' @ ver0 \<or> nv \<in> ran (tags_dict ?pkg)"
    and rest: "split CHR ''/'' nv = [rel, ver]"
      "?second = n @ '' ('' @ sanitize_tag_version ver @ '') '' @ rel @ ''; urgency=medium'' @ rest"
      "CHR ''_'' \<notin> set (sanitize_tag_version ver)"
      "CHR ''%'' \<notin> set (sanitize_tag_version ver)"
    by blast
  have "map_sum id fst (release ?pkg) = Inr ''bookworm''"
    by code_simp
  with r have rel0: "rel0 = ''bookworm''"
    by simp
  have "p1 = ?pkg\<lparr>cached_release := Some rel0\<rparr>"
    using r by (auto simp add: release_def SlimPackage_def Let_def)
  then have p1: "p1 = ?pkg\<lparr>cached_release := Some ''bookworm''\<rparr>"
    unfolding rel0 .
  have "map_sum id fst (version ex_lib ex_control (?pkg\<lparr>cached_release := Some ''bookworm''\<rparr>)) =
      Inr ''1.3_rc1%2+git20200102030405.3c3c3c3.release''"
    by code_simp
  with v p1 have ver0: "ver0 = ''1.3_rc1%2+git20200102030405.3c3c3c3.release''"
    by simp
  have "filter (\<lambda>x. startswith (tag_name x) (tag_prefix ?pkg)) (tags (git_repository ?pkg)) =
      [ex_tag ''hybris-mobian/bookworm/1.2_rc1'']"
    by (simp add: SlimPackage_def ex_repo_def ex_tag_def startswith_def)
  from tags_dict_single [OF this]
  have rn: "ran (tags_dict ?pkg) =
      {replace (tag_name (ex_tag ''hybris-mobian/bookworm/1.2_rc1'')) (tag_prefix ?pkg) []}"
    by (auto simp: ran_def)
  have "replace (tag_name (ex_tag ''hybris-mobian/bookworm/1.2_rc1'')) (tag_prefix ?pkg) [] =
      ''bookworm/1.2_rc1''"
    by code_simp
  then have "ran (tags_dict ?pkg) = {''bookworm/1.2_rc1''}"
    unfolding rn by (rule arg_cong [where f = "\<lambda>x. {x}"])
  with nv rel0 ver0
  have nv': "nv = ''bookworm/1.3_rc1%2+git20200102030405.3c3c3c3.release'' \<or>
          nv = ''bookworm/1.2_rc1''"
    by auto
  from nv' rest
  have 2: "\<exists>n nv rel ver rest.
         (nv = ''bookworm/1.3_rc1%2+git20200102030405.3c3c3c3.release'' \<or>
          nv = ''bookworm/1.2_rc1'') \<and>
         split CHR ''/'' nv = [rel, ver] \<and>
         ?second = n @ '' ('' @ sanitize_tag_version ver @ '') '' @ rel @ ''; urgency=medium'' @ rest
         \<and> CHR ''_'' \<notin> set (sanitize_tag_version ver)
         \<and> CHR ''%'' \<notin> set (sanitize_tag_version ver)"
    by blast
  have mk: "make_package ?w ?a = Inr ?pkg"
    by (simp add: make_package_def ex_world_def ex_args_def truthy_def ex_repo_def)
  have "map_sum id fst (version ex_lib ex_control ?pkg) =
      Inr ''1.3_rc1%2+git20200102030405.3c3c3c3.release''"
    by code_simp
  then obtain q where pv: "version ex_lib ex_control ?pkg =
      Inr (''1.3_rc1%2+git20200102030405.3c3c3c3.release'', q)"
    by (cases "version ex_lib ex_control ?pkg") auto
  have wf: "w_files ?w = ex_control"
    by (simp add: ex_world_def)
  have 4: "stdout (main ex_lib ?w ?a) =
       [''I: Resulting version is 1.3_rc1%2+git20200102030405.3c3c3c3.release'']"
    using inst [THEN conjunct2, THEN conjunct2, THEN spec, THEN spec, THEN spec, THEN mp,
      OF conjI, OF mk] pv
    unfolding wf by simp
  from run 2 san 4 show ?thesis
    by (intro conjI)
qed

text \<open>
  C4 as stated fails for the printed version: with the tag
  \<open>hybris-mobian/bookworm/1.3_rc1%2\<close> on the command line, the line printed keeps
  \<open>_\<close> and \<open>%\<close>.
\<close>

theorem printed_version_is_not_sanitized:
  "stdout (main ex_lib (ex_world [ex_tag ''hybris-mobian/bookworm/1.2_rc1''] ex_control)
      (ex_args (Some ''hybris-mobian/bookworm/1.3_rc1%2''))) =
     [''I: Resulting version is 1.3_rc1%2+git20200102030405.3c3c3c3.release'']
   \<and> CHR ''_'' \<in> set ''1.3_rc1%2+git20200102030405.3c3c3c3.release''
   \<and> CHR ''%'' \<in> set ''1.3_rc1%2+git20200102030405.3c3c3c3.release''"
  by code_simp

section \<open>A missing control file\<close>

lemma control_is_not_the_output:
  "path_join a ''debian/control'' \<noteq> path_join b ''debian/changelog''"
proof
  assume "path_join a ''debian/control'' = path_join b ''debian/changelog''"
  then have "last (path_join a ''debian/control'') = last (path_join b ''debian/changelog'')"
    by simp
  then show False
    by (simp add: path_join_def startswith_def split: if_splits)
qed

lemma make_package_fresh:
  assumes "make_package w a = Inr pkg"
  shows "cached_name pkg = None" and "cached_version pkg = None"
    and "cached_release pkg = None" and "tag pkg \<noteq> None \<or> branch pkg \<noteq> None"
  using assms
  by (auto simp: make_package_def SlimPackage_def truthy_def
      split: option.splits sum.splits if_splits)

lemma name_no_control:
  assumes "cached_name pkg = None"
    and "fs (path_join (working_dir (git_repository pkg)) ''debian/control'') = None"
  shows "name fs pkg = Inl (Exception ''Unable to find debian/control'')"
  using assms by (simp add: name_def)

lemma version_raises_GitError: "version l fs pkg = Inl err \<Longrightarrow> err = GitError"
  by (auto simp: version_def Let_def split: option.splits)

lemma version_fresh:
  assumes "cached_version pkg = None" and "version l fs pkg = Inr (v, pkg')"
  shows "pkg' = pkg\<lparr>cached_version := Some v\<rparr>"
  using assms by (auto simp: version_def Let_def split: option.splits)

lemma iter_changelog_no_control:
  assumes "cached_name pkg = None"
    and "fs (path_join (working_dir (git_repository pkg)) ''debian/control'') = None"
  shows "fst (iter_changelog l fs pkg) = []"
proof (cases "release pkg")
  case (Inl err)
  then show ?thesis by (simp add: iter_changelog_def)
next
  case (Inr rp)
  then obtain rel pkg1 where r: "release pkg = Inr (rel, pkg1)"
    by (cases rp) auto
  show ?thesis
  proof (cases "version l fs pkg1")
    case (Inl err)
    with r show ?thesis by (simp add: iter_changelog_def)
  next
    case (Inr vp)
    then obtain ver pkg2 where v: "version l fs pkg1 = Inr (ver, pkg2)"
      by (cases vp) auto
    from release_keeps [OF r] version_keeps [OF v] assms
    have "name fs pkg2 = Inl (Exception ''Unable to find debian/control'')"
      by (auto intro: name_no_control)
    note no_stanza = walk_name_fails [OF this]
    show ?thesis
    proof (cases "iter_commits (git_repository pkg2) (commit_hash pkg2)")
      case None
      with r v show ?thesis by (simp add: iter_changelog_def)
    next
      case (Some cs)
      obtain ds err where
        w: "walk l fs (tags_dict pkg) cs None (rel @ ''/'' @ ver) pkg2 = (ds, err)"
        by (cases "walk l fs (tags_dict pkg) cs None (rel @ ''/'' @ ver) pkg2")
      with no_stanza [of l "tags_dict pkg" cs None "rel @ ''/'' @ ver"] have "ds = []"
        by simp
      with r v Some w show ?thesis by (simp add: iter_changelog_def)
    qed
  qed
qed

lemma iter_changelog_no_control_raises:
  assumes "cached_name pkg = None"
    and "fs (path_join (working_dir (git_repository pkg)) ''debian/control'') = None"
    and "cached_release pkg = None" and "tag pkg \<noteq> None \<or> branch pkg \<noteq> None"
    and "cached_version pkg = Some v" and "CHR ''/'' \<notin> set v"
    and "iter_commits (git_repository pkg) (commit_hash pkg) = Some cs"
    and "\<exists>c \<in> set cs. parents c = []" and "hexsha (hd cs) = commit_hash pkg"
  shows "iter_changelog l fs pkg = ([], Some (Exception ''Unable to find debian/control''))"
proof -
  have "\<exists>rel. release pkg = Inr (rel, pkg\<lparr>cached_release := Some rel\<rparr>)"
  proof (cases "tag pkg")
    case (Some t)
    with assms(3) show ?thesis by (simp add: release_def Let_def)
  next
    case None
    with assms(4) obtain b where "branch pkg = Some b"
      by auto
    with None assms(3) show ?thesis by (simp add: release_def Let_def)
  qed
  then obtain rel where r: "release pkg = Inr (rel, pkg\<lparr>cached_release := Some rel\<rparr>)"
    by blast
  let ?pkg1 = "pkg\<lparr>cached_release := Some rel\<rparr>"
  have v: "version l fs ?pkg1 = Inr (v, ?pkg1)"
    using assms(5) by (simp add: version_def)
  have n: "name fs ?pkg1 = Inl (Exception ''Unable to find debian/control'')"
    using assms(1,2) by (simp add: name_def)
  have nv: "split CHR ''/'' (rel @ ''/'' @ v) = [rel, v]"
    using release_no_slash [OF assms(3) r] assms(6) by (rule split_two)
  have "walk l fs (tags_dict pkg) cs None (rel @ ''/'' @ v) ?pkg1 =
      ([], Some (Exception ''Unable to find debian/control''))"
    using walk_name_raises [OF n nv assms(8), of None l "tags_dict pkg"] assms(9)
    by simp
  then show ?thesis
    using r v assms(7) by (simp add: iter_changelog_def)
qed

lemma main_opened:
  assumes "make_package w a = Inr pkg"
    and "version l (w_files w) pkg = Inr (v, pkg')"
    and "can_write w (path_join (cwd w) ''debian/changelog'')"
    and "iter_changelog l ((w_files w)(path_join (cwd w) ''debian/changelog'' \<mapsto> [])) pkg' =
           (entries, err)"
  shows "main l w a =
     \<lparr> stdout = [''I: Resulting version is '' @ v],
       files_after = (w_files w)(path_join (cwd w) ''debian/changelog'' \<mapsto> concat entries),
       raised = err \<rparr>"
  using assms by (simp add: main_def Let_def)

text \<open>
  C2, as amended. Let the package be built and \<open>debian/control\<close> be missing from the
  working directory. Then no stanza is ever written: the files are left as they were,
  or as they were but for an emptied \<open>debian/changelog\<close>. The failure about the missing
  control file is raised only after the version has been printed and the output file
  has been opened and emptied. And it is raised, with the output file left empty,
  whenever the version resolves and holds no \<open>/\<close>, the output file can be opened, and
  the walk starts at the commit named by the commit hash and reaches a root.
\<close>

theorem missing_control_file:
  assumes pkg: "make_package w a = Inr pkg"
    and missing:
      "w_files w (path_join (working_dir (git_repository pkg)) ''debian/control'') = None"
  shows "(files_after (main l w a) = w_files w
          \<or> files_after (main l w a) =
              (w_files w)(path_join (cwd w) ''debian/changelog'' \<mapsto> []))
       \<and> (raised (main l w a) = Some (Exception ''Unable to find debian/control'') \<longrightarrow>
            files_after (main l w a) =
              (w_files w)(path_join (cwd w) ''debian/changelog'' \<mapsto> [])
            \<and> stdout (main l w a) \<noteq> [])
       \<and> (\<forall>v pkg' cs.
            version l (w_files w) pkg = Inr (v, pkg') \<and> CHR ''/'' \<notin> set v
            \<and> can_write w (path_join (cwd w) ''debian/changelog'')
            \<and> iter_commits (git_repository pkg) (commit_hash pkg) = Some cs
            \<and> hexsha (hd cs) = commit_hash pkg \<and> (\<exists>c \<in> set cs. parents c = []) \<longrightarrow>
            raised (main l w a) = Some (Exception ''Unable to find debian/control'')
            \<and> files_after (main l w a) =
                (w_files w)(path_join (cwd w) ''debian/changelog'' \<mapsto> []))"
proof (cases "version l (w_files w) pkg")
  case (Inl err)
  then have "main l w a = \<lparr> stdout = [], files_after = w_files w, raised = Some err \<rparr>"
    using pkg by (simp add: main_def)
  moreover from Inl have "err = GitError"
    by (rule version_raises_GitError)
  ultimately show ?thesis
    using Inl by simp
next
  case (Inr vp)
  then obtain v pkg' where v: "version l (w_files w) pkg = Inr (v, pkg')"
    by (cases vp) auto
  let ?out = "path_join (cwd w) ''debian/changelog''"
  let ?fs = "(w_files w)(?out \<mapsto> [])"
  show ?thesis
  proof (cases "can_write w ?out")
    case False
    with pkg v
    have "main l w a = \<lparr> stdout = [''I: Resulting version is '' @ v],
        files_after = w_files w, raised = Some OSError \<rparr>"
      by (simp add: main_def Let_def)
    with False show ?thesis
      by simp
  next
    case True
    from make_package_fresh [OF pkg] version_fresh [OF _ v]
    have pkg': "pkg' = pkg\<lparr>cached_version := Some v\<rparr>"
      and fresh: "cached_name pkg = None" "cached_release pkg = None"
        "tag pkg \<noteq> None \<or> branch pkg \<noteq> None"
      by simp_all
    have gone: "?fs (path_join (working_dir (git_repository pkg')) ''debian/control'') = None"
      using missing control_is_not_the_output by (simp add: pkg')
    have no_name: "cached_name pkg' = None"
      using fresh by (simp add: pkg')
    obtain entries err where it: "iter_changelog l ?fs pkg' = (entries, err)"
      by (cases "iter_changelog l ?fs pkg'")
    with iter_changelog_no_control [where fs = ?fs and pkg = pkg' and l = l, OF no_name gone]
    have "entries = []"
      by simp
    with main_opened [OF pkg v True it]
    have m: "main l w a = \<lparr> stdout = [''I: Resulting version is '' @ v],
        files_after = ?fs, raised = err \<rparr>"
      by simp
    have live: "err = Some (Exception ''Unable to find debian/control'')"
      if "CHR ''/'' \<notin> set v"
        and "iter_commits (git_repository pkg) (commit_hash pkg) = Some cs"
        and "hexsha (hd cs) = commit_hash pkg" and "\<exists>c \<in> set cs. parents c = []"
      for cs
    proof -
      have "iter_changelog l ?fs pkg' =
          ([], Some (Exception ''Unable to find debian/control''))"
        using that fresh
        by (intro iter_changelog_no_control_raises
              [where fs = ?fs and pkg = pkg' and v = v and cs = cs, OF no_name gone])
           (simp_all add: pkg')
      with it show ?thesis by simp
    qed
    show ?thesis
      using m v live by auto
  qed
qed

theorem missing_control_file_witness:
  "raised (main ex_lib (ex_world [ex_tag ''hybris-mobian/bookworm/1.2.3''] ex_old_changelog)
      (ex_args None)) = Some (Exception ''Unable to find debian/control'')
   \<and> files_after (main ex_lib (ex_world [ex_tag ''hybris-mobian/bookworm/1.2.3'']
        ex_old_changelog) (ex_args None)) =
       ex_old_changelog(''/src/pkg/debian/changelog'' \<mapsto> [])"
proof -
  let ?ts = "[ex_tag ''hybris-mobian/bookworm/1.2.3'']"
  let ?w = "ex_world ?ts ex_old_changelog"
  let ?pkg = "SlimPackage (ex_repo ?ts) (hexsha ex_head) None ''hybris-mobian/''
      (Some ''bookworm'') ''feature/'' ''release''"
  let ?v = "''0.9+git20200102030405.3c3c3c3.release''"
  have pkg: "make_package ?w (ex_args None) = Inr ?pkg"
    by (simp add: make_package_def ex_world_def ex_args_def truthy_def ex_repo_def)
  have missing:
    "w_files ?w (path_join (working_dir (git_repository ?pkg)) ''debian/control'') = None"
    by code_simp
  have c0: "commit_of (ex_repo ?ts) (hexsha ex_head) = Some ex_head"
    by code_simp
  have v0: "map_sum id fst (version ex_lib (w_files ?w) ?pkg) = Inr ?v"
    by code_simp
  have ver: "version ex_lib (w_files ?w) ?pkg = Inr (?v, ?pkg\<lparr>cached_version := Some ?v\<rparr>)"
    using v0 c0
    by (simp add: version_def SlimPackage_def Let_def first_result_strategies
          get_version_from_changelog_def str_or_None_def split: option.splits)
  have ok: "CHR ''/'' \<notin> set ?v"
    by simp
  have wr: "can_write ?w (path_join (cwd ?w) ''debian/changelog'')"
    by (simp add: ex_world_def)
  have cs: "iter_commits (git_repository ?pkg) (commit_hash ?pkg) =
      Some [ex_head, ex_tagged, ex_root]"
    by (simp add: SlimPackage_def ex_repo_def)
  have hd: "hexsha (hd [ex_head, ex_tagged, ex_root]) = commit_hash ?pkg"
    by (simp add: SlimPackage_def)
  have root: "\<exists>c \<in> set [ex_head, ex_tagged, ex_root]. parents c = []"
    by (simp add: ex_root_def)
  have out: "path_join (cwd ?w) ''debian/changelog'' = ''/src/pkg/debian/changelog''"
    by code_simp
  have files: "w_files ?w = ex_old_changelog"
    by (simp add: ex_world_def)
  from missing_control_file [OF pkg missing, of ex_lib] ver ok wr cs hd root
  have "raised (main ex_lib ?w (ex_args None)) =
      Some (Exception ''Unable to find debian/control'')
    \<and> files_after (main ex_lib ?w (ex_args None)) =
      (w_files ?w)(path_join (cwd ?w) ''debian/changelog'' \<mapsto> [])"
    by blast
  then show ?thesis
    by (simp only: out files)
qed

text \<open>
  C2 as stated fails: run where \<open>debian/control\<close> is missing and an older
  \<open>debian/changelog\<close> exists, the program aborts with the message about the control
  file, and by then the changelog has been opened for writing and is empty.
\<close>

theorem output_is_emptied_before_the_control_failure:
  "ex_old_changelog ''/src/pkg/debian/control'' = None
   \<and> ex_old_changelog ''/src/pkg/debian/changelog'' =
       Some (''demo-pkg (0.9) bookworm; urgency=medium'' @ [nl])
   \<and> raised (main ex_lib (ex_world [ex_tag ''hybris-mobian/bookworm/1.2.3''] ex_old_changelog)
        (ex_args None)) = Some (Exception ''Unable to find debian/control'')
   \<and> files_after (main ex_lib (ex_world [ex_tag ''hybris-mobian/bookworm/1.2.3'']
        ex_old_changelog) (ex_args None)) ''/src/pkg/debian/changelog'' = Some []"
  by code_simp

end
